theory Spec2Isabelle
  imports Main "HOL-Library.AList"
begin

section \<open>Values and documents\<close>

text \<open>
  The endpoints of \<^verbatim>\<open>src/main.py\<close> work on MongoDB documents, which Python sees as
  dictionaries from field names to values. A document is an association list (Python
  dictionaries keep insertion order); \<open>map_of\<close> is \<^verbatim>\<open>dict.get\<close>. The values are the
  ones the fields of \<^verbatim>\<open>Task\<close> and \<^verbatim>\<open>Message\<close> in \<^verbatim>\<open>src/schemas.py\<close> take
  (\<^verbatim>\<open>None\<close>, integers, strings) and the \<^verbatim>\<open>ObjectId\<close> of the \<^verbatim>\<open>_id\<close> field,
  which is kept as the lowercase hexadecimal digits of its bytes (24 digits for the 12
  bytes of an identity the store generates). A string is the list of its UTF-8 bytes.
\<close>

datatype pyval = PNone | PInt int | PStr string | POid string

type_synonym doc = "(string \<times> pyval) list"

datatype error =
    TypeError
  | ValueError
  | KeyError string
  | IndexError
  | InvalidId
  | HTTPException nat string

subsection \<open>The built-ins the endpoints use\<close>

definition digit_char :: "nat \<Rightarrow> char" where
  "digit_char n = char_of (48 + n)"

function show_nat :: "nat \<Rightarrow> string" where
  "show_nat n = (if n < 10 then [digit_char n] else show_nat (n div 10) @ [digit_char (n mod 10)])"
  by pat_completeness auto
termination
  by (relation "measure id") auto

declare show_nat.simps [simp del]

definition show_int :: "int \<Rightarrow> string" where
  "show_int i = (if i < 0 then CHR ''-'' # show_nat (nat (- i)) else show_nat (nat i))"

text \<open>\<^verbatim>\<open>str(v)\<close>, as the f-strings and \<^verbatim>\<open>serialize_doc\<close> apply it.\<close>

fun py_str :: "pyval \<Rightarrow> string" where
  "py_str PNone = ''None''"
| "py_str (PInt i) = show_int i"
| "py_str (PStr s) = s"
| "py_str (POid h) = h"

text \<open>Truth value of a value, as \<^verbatim>\<open>if v\<close> and \<^verbatim>\<open>not v\<close> read it.\<close>

fun truthy :: "pyval \<Rightarrow> bool" where
  "truthy PNone = False"
| "truthy (PInt i) = (i \<noteq> 0)"
| "truthy (PStr s) = (s \<noteq> [])"
| "truthy (POid h) = True"

text \<open>
  \<^verbatim>\<open>int(v)\<close>: the identity on an integer, a \<^verbatim>\<open>TypeError\<close> on \<^verbatim>\<open>None\<close> and on an
  \<^verbatim>\<open>ObjectId\<close>, and on a string the value of a decimal literal or a \<^verbatim>\<open>ValueError\<close>.
  CPython first replaces every character from U+007F on by a space when it is white
  space and by its ASCII digit when it is a decimal digit (any other such character
  makes the literal invalid), then reads: ASCII white space, an optional sign, digits
  with single underscores between them, ASCII white space. A literal of more than 4300
  digits is refused (the default of \<^verbatim>\<open>sys.set_int_max_str_digits\<close>). The characters that
  are white space or decimal digits are those of Unicode 14.0 (Python 3.11).
\<close>

definition is_cont :: "char \<Rightarrow> bool" where
  "is_cont c = (let n = (of_char c :: nat) in 128 \<le> n \<and> n < 192)"

definition cont_val :: "char \<Rightarrow> nat" where
  "cont_val c = of_char c - 128"

text \<open>The code points of a string, which is kept as its UTF-8 bytes.\<close>

fun utf8_decode :: "string \<Rightarrow> nat list option" where
  "utf8_decode [] = Some []"
| "utf8_decode (c # cs) =
     (let b = (of_char c :: nat) in
        if b < 128 then map_option ((#) b) (utf8_decode cs)
        else if 194 \<le> b \<and> b < 224 then
          (case cs of
             c1 # r \<Rightarrow>
               if is_cont c1
               then map_option ((#) ((b - 192) * 64 + cont_val c1)) (utf8_decode r)
               else None
           | _ \<Rightarrow> None)
        else if 224 \<le> b \<and> b < 240 then
          (case cs of
             c1 # c2 # r \<Rightarrow>
               if is_cont c1 \<and> is_cont c2
               then map_option ((#) ((b - 224) * 4096 + cont_val c1 * 64 + cont_val c2))
                      (utf8_decode r)
               else None
           | _ \<Rightarrow> None)
        else if 240 \<le> b \<and> b < 245 then
          (case cs of
             c1 # c2 # c3 # r \<Rightarrow>
               if is_cont c1 \<and> is_cont c2 \<and> is_cont c3
               then map_option
                      ((#) ((b - 240) * 262144 + cont_val c1 * 4096 + cont_val c2 * 64 + cont_val c3))
                      (utf8_decode r)
               else None
           | _ \<Rightarrow> None)
        else None)"

text \<open>White space outside ASCII (\<^verbatim>\<open>Py_UNICODE_ISSPACE\<close>).\<close>

definition unicode_spaces :: "nat list" where
  "unicode_spaces =
    [0x85, 0xA0, 0x1680, 0x2000, 0x2001, 0x2002, 0x2003, 0x2004, 0x2005, 0x2006, 0x2007,
     0x2008, 0x2009, 0x200A, 0x2028, 0x2029, 0x202F, 0x205F, 0x3000]"

text \<open>
  The decimal digits outside ASCII (\<^verbatim>\<open>Py_UNICODE_TODECIMAL\<close>): each entry is the first
  code point of a run of digits and the length of the run; the digit at offset \<open>k\<close> of a
  run has the value \<open>k mod 10\<close>.
\<close>

definition decimal_runs :: "(nat \<times> nat) list" where
  "decimal_runs =
    [(0x660, 10), (0x6F0, 10), (0x7C0, 10), (0x966, 10), (0x9E6, 10), (0xA66, 10),
     (0xAE6, 10), (0xB66, 10), (0xBE6, 10), (0xC66, 10), (0xCE6, 10), (0xD66, 10),
     (0xDE6, 10), (0xE50, 10), (0xED0, 10), (0xF20, 10), (0x1040, 10), (0x1090, 10),
     (0x17E0, 10), (0x1810, 10), (0x1946, 10), (0x19D0, 10), (0x1A80, 10), (0x1A90, 10),
     (0x1B50, 10), (0x1BB0, 10), (0x1C40, 10), (0x1C50, 10), (0xA620, 10), (0xA8D0, 10),
     (0xA900, 10), (0xA9D0, 10), (0xA9F0, 10), (0xAA50, 10), (0xABF0, 10), (0xFF10, 10),
     (0x104A0, 10), (0x10D30, 10), (0x11066, 10), (0x110F0, 10), (0x11136, 10),
     (0x111D0, 10), (0x112F0, 10), (0x11450, 10), (0x114D0, 10), (0x11650, 10),
     (0x116C0, 10), (0x11730, 10), (0x118E0, 10), (0x11950, 10), (0x11C50, 10),
     (0x11D50, 10), (0x11DA0, 10), (0x16A60, 10), (0x16AC0, 10), (0x16B50, 10),
     (0x1D7CE, 50), (0x1E140, 10), (0x1E2F0, 10), (0x1E950, 10), (0x1FBF0, 10)]"

definition decimal_of :: "nat \<Rightarrow> nat option" where
  "decimal_of cp =
     (case filter (\<lambda>r. fst r \<le> cp \<and> cp < fst r + snd r) decimal_runs of
        [] \<Rightarrow> None
      | r # _ \<Rightarrow> Some ((cp - fst r) mod 10))"

text \<open>\<^verbatim>\<open>_PyUnicode_TransformDecimalAndSpaceToASCII\<close>, on the code points.\<close>

fun to_ascii :: "nat list \<Rightarrow> string option" where
  "to_ascii [] = Some []"
| "to_ascii (cp # cps) =
     (if cp < 127 then map_option ((#) (char_of cp)) (to_ascii cps)
      else if cp \<in> set unicode_spaces then map_option ((#) CHR '' '') (to_ascii cps)
      else
        (case decimal_of cp of
           None \<Rightarrow> None
         | Some d \<Rightarrow> map_option ((#) (char_of (48 + d))) (to_ascii cps)))"

definition is_space :: "char \<Rightarrow> bool" where
  "is_space c = (let n = (of_char c :: nat) in (9 \<le> n \<and> n \<le> 13) \<or> n = 32)"

definition is_digit :: "char \<Rightarrow> bool" where
  "is_digit c = (let n = (of_char c :: nat) in 48 \<le> n \<and> n \<le> 57)"

fun digits_val :: "nat \<Rightarrow> string \<Rightarrow> nat option" where
  "digits_val acc [] = Some acc"
| "digits_val acc (c # cs) =
     (if is_digit c then digits_val (acc * 10 + (of_char c - 48)) cs
      else if c = CHR ''_'' then
        (case cs of
           [] \<Rightarrow> None
         | d # ds \<Rightarrow> if is_digit d then digits_val acc cs else None)
      else None)"

definition unsigned_val :: "string \<Rightarrow> nat option" where
  "unsigned_val s =
     (case s of
        [] \<Rightarrow> None
      | c # cs \<Rightarrow>
          if is_digit c \<and> length (filter is_digit s) \<le> 4300 then digits_val 0 s else None)"

definition strip :: "string \<Rightarrow> string" where
  "strip s = rev (dropWhile is_space (rev (dropWhile is_space s)))"

definition int_of_ascii :: "string \<Rightarrow> error + int" where
  "int_of_ascii s =
     (case strip s of
        [] \<Rightarrow> Inl ValueError
      | c # cs \<Rightarrow>
          if c = CHR ''-'' then
            (case unsigned_val cs of None \<Rightarrow> Inl ValueError | Some n \<Rightarrow> Inr (- int n))
          else if c = CHR ''+'' then
            (case unsigned_val cs of None \<Rightarrow> Inl ValueError | Some n \<Rightarrow> Inr (int n))
          else
            (case unsigned_val (c # cs) of None \<Rightarrow> Inl ValueError | Some n \<Rightarrow> Inr (int n)))"

definition int_of_str :: "string \<Rightarrow> error + int" where
  "int_of_str s =
     (case utf8_decode s of
        None \<Rightarrow> Inl ValueError
      | Some cps \<Rightarrow>
          (case to_ascii cps of
             None \<Rightarrow> Inl ValueError
           | Some a \<Rightarrow> int_of_ascii a))"

fun py_int :: "pyval \<Rightarrow> error + int" where
  "py_int (PInt i) = Inr i"
| "py_int (PStr s) = int_of_str s"
| "py_int PNone = Inl TypeError"
| "py_int (POid h) = Inl TypeError"

text \<open>\<^verbatim>\<open>t.get(k, default)\<close>.\<close>

definition get_default :: "doc \<Rightarrow> string \<Rightarrow> pyval \<Rightarrow> pyval" where
  "get_default t k dflt = (case map_of t k of None \<Rightarrow> dflt | Some v \<Rightarrow> v)"

text \<open>\<^verbatim>\<open>t.get(k)\<close>, whose default is \<^verbatim>\<open>None\<close>.\<close>

definition get :: "doc \<Rightarrow> string \<Rightarrow> pyval" where
  "get t k = get_default t k PNone"

section \<open>Scoring\<close>

text \<open>
  \<^verbatim>\<open>
  def score_task(t):
      impact = int(t.get("impact", 5))
      effort = int(t.get("effort", 3))
      urgency = int(t.get("urgency", 5))
      return (impact * 2) + urgency - effort
  \<close>
  The three conversions run in this order, and the first that raises ends the call.
\<close>

definition score_task :: "doc \<Rightarrow> error + int" where
  "score_task t =
     (case py_int (get_default t ''impact'' (PInt 5)) of
        Inl e \<Rightarrow> Inl e
      | Inr impact \<Rightarrow>
          (case py_int (get_default t ''effort'' (PInt 3)) of
             Inl e \<Rightarrow> Inl e
           | Inr effort \<Rightarrow>
               (case py_int (get_default t ''urgency'' (PInt 5)) of
                  Inl e \<Rightarrow> Inl e
                | Inr urgency \<Rightarrow> Inr ((impact * 2) + urgency - effort))))"

text \<open>
  The Task invariant on one numeric field: the field is absent, or it holds an integer
  between 1 and 10.
\<close>

definition field_ok :: "doc \<Rightarrow> string \<Rightarrow> bool" where
  "field_ok t k =
     (case map_of t k of
        None \<Rightarrow> True
      | Some (PInt i) \<Rightarrow> 1 \<le> i \<and> i \<le> 10
      | Some _ \<Rightarrow> False)"

definition task_ok :: "doc \<Rightarrow> bool" where
  "task_ok t = (field_ok t ''impact'' \<and> field_ok t ''effort'' \<and> field_ok t ''urgency'')"

text \<open>The integer a numeric field stands for: its value, or the default when absent.\<close>

definition field_or :: "doc \<Rightarrow> string \<Rightarrow> int \<Rightarrow> int" where
  "field_or t k dflt = (case map_of t k of Some (PInt i) \<Rightarrow> i | _ \<Rightarrow> dflt)"

section \<open>The document store\<close>

text \<open>
  The module \<^verbatim>\<open>database\<close> (\<^verbatim>\<open>db\<close>, \<^verbatim>\<open>create_document\<close>, \<^verbatim>\<open>get_documents\<close>) is
  imported by \<^verbatim>\<open>src/main.py\<close> and is not among the sources. A store maps a collection
  name to the documents of the collection, in the order the store returns them.
\<close>

type_synonym store = "string \<Rightarrow> doc list"

text \<open>
  Modelled from the spec: the filter of \<^verbatim>\<open>find\<close> and \<^verbatim>\<open>updateOne\<close>, missing with the
  \<^verbatim>\<open>database\<close> module: "an equality filter over named fields".
\<close>

definition doc_matches :: "doc \<Rightarrow> doc \<Rightarrow> bool" where
  "doc_matches flt d = list_all (\<lambda>kv. map_of d (fst kv) = Some (snd kv)) flt"

text \<open>
  Modelled from the spec: \<^verbatim>\<open>get_documents\<close> of the missing \<^verbatim>\<open>database\<close> module,
  "find(collectionName, filter) -> sequence of documents: returns all documents matching
  an equality filter over named fields; iteration order is store-defined".
\<close>

definition get_documents :: "store \<Rightarrow> string \<Rightarrow> doc \<Rightarrow> doc list" where
  "get_documents st c flt = filter (doc_matches flt) (st c)"

text \<open>
  Modelled from the spec: \<^verbatim>\<open>create_document\<close> of the missing \<^verbatim>\<open>database\<close> module,
  "insert(collectionName, document) -> generated identity". The identity the store
  generates is an input of the model.
\<close>

definition create_document :: "string \<Rightarrow> string \<Rightarrow> doc \<Rightarrow> store \<Rightarrow> string \<times> store" where
  "create_document new_id c d st =
     (new_id, st(c := st c @ [AList.update ''_id'' (POid new_id) d]))"

text \<open>The field assignments of \<^verbatim>\<open>$set\<close>, applied from left to right.\<close>

fun set_fields :: "doc \<Rightarrow> doc \<Rightarrow> doc" where
  "set_fields [] d = d"
| "set_fields (kv # asg) d = set_fields asg (AList.update (fst kv) (snd kv) d)"

fun update_first :: "doc \<Rightarrow> doc \<Rightarrow> doc list \<Rightarrow> nat \<times> doc list" where
  "update_first flt asg [] = (0, [])"
| "update_first flt asg (d # ds) =
     (if doc_matches flt d then (1, set_fields asg d # ds)
      else (case update_first flt asg ds of (n, ds') \<Rightarrow> (n, d # ds')))"

text \<open>
  Modelled from the spec: \<^verbatim>\<open>db[c].update_one\<close> of the missing \<^verbatim>\<open>database\<close> module,
  "updateOne(collectionName, matchFilter, fieldAssignments) -> matchedCount (0 or 1):
  applies partial field overwrites to at most one matching document". The first
  matching document in store order is the one overwritten.
\<close>

definition update_one :: "store \<Rightarrow> string \<Rightarrow> doc \<Rightarrow> doc \<Rightarrow> nat \<times> store" where
  "update_one st c flt asg =
     (case update_first flt asg (st c) of (n, ds) \<Rightarrow> (n, st(c := ds)))"

section \<open>Helpers of main.py\<close>

text \<open>
  \<^verbatim>\<open>
  def serialize_doc(doc):
      if not doc:
          return doc
      doc = {**doc}
      if "_id" in doc:
          doc["id"] = str(doc.pop("_id"))
      for k, v in doc.items():
          if isinstance(v, ObjectId):
              doc[k] = str(v)
      return doc
  \<close>
\<close>

definition oid_to_str :: "pyval \<Rightarrow> pyval" where
  "oid_to_str v = (case v of POid h \<Rightarrow> PStr h | _ \<Rightarrow> v)"

definition serialize_doc :: "doc \<Rightarrow> doc" where
  "serialize_doc doc =
     (if doc = [] then doc
      else
        (let doc1 =
           (case map_of doc ''_id'' of
              None \<Rightarrow> doc
            | Some v \<Rightarrow> AList.update ''id'' (PStr (py_str v)) (AList.delete ''_id'' doc))
         in map (\<lambda>kv. (fst kv, oid_to_str (snd kv))) doc1))"

text \<open>
  A list comprehension or a key function applied to each element in turn: the first
  element that raises ends the whole evaluation.
\<close>

fun map_err :: "('a \<Rightarrow> error + 'b) \<Rightarrow> 'a list \<Rightarrow> error + 'b list" where
  "map_err f [] = Inr []"
| "map_err f (x # xs) =
     (case f x of
        Inl e \<Rightarrow> Inl e
      | Inr y \<Rightarrow> (case map_err f xs of Inl e \<Rightarrow> Inl e | Inr ys \<Rightarrow> Inr (y # ys)))"

text \<open>
  \<^verbatim>\<open>sorted(xs, key=key, reverse=True)\<close>: the keys are computed first, one call per
  element; the sort is stable, and with \<^verbatim>\<open>reverse=True\<close> elements of equal key keep
  their original order. \<open>sort_key\<close> is the stable insertion sort of the library, here on
  the negated keys.
\<close>

definition sorted_reverse :: "('a \<Rightarrow> error + int) \<Rightarrow> 'a list \<Rightarrow> error + 'a list" where
  "sorted_reverse key xs =
     (case map_err key xs of
        Inl e \<Rightarrow> Inl e
      | Inr ks \<Rightarrow> Inr (map snd (sort_key (\<lambda>kx. - fst kx) (zip ks xs))))"

section \<open>Next task\<close>

text \<open>An optional string as a document value.\<close>

definition opt_str :: "string option \<Rightarrow> pyval" where
  "opt_str x = (case x of None \<Rightarrow> PNone | Some s \<Rightarrow> PStr s)"

text \<open>
  The truth value of the optional query parameter \<^verbatim>\<open>user_email\<close>: \<^verbatim>\<open>None\<close> and the
  empty string are false.
\<close>

definition given :: "string option \<Rightarrow> bool" where
  "given user_email = (case user_email of None \<Rightarrow> False | Some u \<Rightarrow> u \<noteq> [])"

text \<open>
  \<^verbatim>\<open>
  def pref_score(t):
      s = score_task(t)
      if user_email and t.get("assignee") == user_email:
          s += 5
      if not t.get("assignee"):
          s += 2
      return s
  \<close>
\<close>

definition pref_score :: "string option \<Rightarrow> doc \<Rightarrow> error + int" where
  "pref_score user_email t =
     (case score_task t of
        Inl e \<Rightarrow> Inl e
      | Inr s \<Rightarrow>
          (let s1 = (if given user_email \<and> get t ''assignee'' = opt_str user_email
                     then s + 5 else s);
               s2 = (if \<not> truthy (get t ''assignee'') then s1 + 2 else s1)
           in Inr s2))"

text \<open>
  The two dictionaries \<^verbatim>\<open>next_task\<close> returns: \<^verbatim>\<open>{"task": None, "message": m}\<close> and
  \<^verbatim>\<open>{"task": best_ser}\<close>.
\<close>

datatype next_response = NoTask string | Selected doc

text \<open>
  \<^verbatim>\<open>
  def next_task(user_email = None):
      backlog = get_documents("task", {"status": "backlog"})
      if not backlog:
          blocked = get_documents("task", {"status": "blocked"})
          pool = blocked
      else:
          pool = backlog
      if not pool:
          return {"task": None, "message": "No tasks available. Create one to get started."}
      ...
      best = sorted(pool, key=pref_score, reverse=True)[0]
      best_ser = serialize_doc(best)
      if user_email and best.get("status") == "backlog":
          db["task"].update_one(
              {"_id": best["_id"]},
              {"$set": {"status": "in_progress", "assignee": user_email}},
          )
          best_ser["status"] = "in_progress"
          best_ser["assignee"] = user_email
      best_ser["score"] = score_task(best)
      return {"task": best_ser}
  \<close>
  A call returns its response or the exception it raised, and the store as the call
  left it. The function is modelled in three parts: \<open>candidate_pool\<close> is the choice of
  \<^verbatim>\<open>pool\<close> (the first eight lines of the body), \<open>claim_and_respond\<close> is everything
  after \<^verbatim>\<open>best\<close> is chosen (from \<^verbatim>\<open>best_ser = serialize_doc(best)\<close> on), and
  \<open>next_task\<close> puts them together around the sort.
\<close>

definition candidate_pool :: "store \<Rightarrow> doc list" where
  "candidate_pool st =
     (let backlog = get_documents st ''task'' [(''status'', PStr ''backlog'')]
      in if backlog = [] then get_documents st ''task'' [(''status'', PStr ''blocked'')]
         else backlog)"

definition claim_and_respond ::
    "string option \<Rightarrow> doc \<Rightarrow> store \<Rightarrow> (error + next_response) \<times> store" where
  "claim_and_respond user_email best st =
     (let best_ser = serialize_doc best in
        if given user_email \<and> get best ''status'' = PStr ''backlog'' then
          (case map_of best ''_id'' of
             None \<Rightarrow> (Inl (KeyError ''_id''), st)
           | Some oid \<Rightarrow>
               (let u = opt_str user_email;
                    st' = snd (update_one st ''task'' [(''_id'', oid)]
                           [(''status'', PStr ''in_progress''), (''assignee'', u)]);
                    best_ser' = AList.update ''assignee'' u
                           (AList.update ''status'' (PStr ''in_progress'') best_ser)
                in
                  (case score_task best of
                     Inl e \<Rightarrow> (Inl e, st')
                   | Inr s \<Rightarrow> (Inr (Selected (AList.update ''score'' (PInt s) best_ser')), st'))))
        else
          (case score_task best of
             Inl e \<Rightarrow> (Inl e, st)
           | Inr s \<Rightarrow> (Inr (Selected (AList.update ''score'' (PInt s) best_ser)), st)))"

definition next_task :: "string option \<Rightarrow> store \<Rightarrow> (error + next_response) \<times> store" where
  "next_task user_email st =
     (let pool = candidate_pool st
      in
        if pool = [] then (Inr (NoTask ''No tasks available. Create one to get started.''), st)
        else
          (case sorted_reverse (pref_score user_email) pool of
             Inl e \<Rightarrow> (Inl e, st)
           | Inr [] \<Rightarrow> (Inl IndexError, st)
           | Inr (best # rest) \<Rightarrow> claim_and_respond user_email best st))"

section \<open>Status update\<close>

text \<open>
  \<^verbatim>\<open>ObjectId(task_id)\<close> of the \<^verbatim>\<open>bson\<close> library on a string:
  \<^verbatim>\<open>
  if len(oid) == 24:
      try:
          self.__id = bytes.fromhex(oid)
      except (TypeError, ValueError):
          _raise_invalid_id(oid)
  else:
      _raise_invalid_id(oid)
  \<close>
  \<^verbatim>\<open>bytes.fromhex\<close> reads pairs of hexadecimal digits, skips ASCII white space before a
  pair and at the end, and raises on anything else, also on a character outside ASCII.
  The identity is the bytes read, kept as their lowercase hexadecimal digits, which is
  also what \<^verbatim>\<open>str\<close> of an identity gives: 24 digits when the string had no white space,
  fewer otherwise. A string with a character outside ASCII has more bytes than
  characters; it raises whatever its length, here as in the library.
\<close>

definition is_hex :: "char \<Rightarrow> bool" where
  "is_hex c =
     (let n = (of_char c :: nat)
      in (48 \<le> n \<and> n \<le> 57) \<or> (65 \<le> n \<and> n \<le> 70) \<or> (97 \<le> n \<and> n \<le> 102))"

definition lower_hex :: "char \<Rightarrow> char" where
  "lower_hex c =
     (let n = (of_char c :: nat) in if 65 \<le> n \<and> n \<le> 70 then char_of (n + 32) else c)"

fun fromhex :: "string \<Rightarrow> string option" where
  "fromhex [] = Some []"
| "fromhex [c] = (if is_space c then Some [] else None)"
| "fromhex (c # d # cs) =
     (if is_space c then fromhex (d # cs)
      else if is_hex c \<and> is_hex d
      then map_option (\<lambda>h. lower_hex c # lower_hex d # h) (fromhex cs)
      else None)"

definition ObjectId :: "string \<Rightarrow> error + string" where
  "ObjectId s =
     (if length s = 24 then (case fromhex s of None \<Rightarrow> Inl InvalidId | Some h \<Rightarrow> Inr h)
      else Inl InvalidId)"

record TaskStatusUpdate =
  status :: string

text \<open>
  \<^verbatim>\<open>
  def update_task_status(task_id: str, payload: TaskStatusUpdate):
      try:
          oid = ObjectId(task_id)
      except Exception:
          raise HTTPException(status_code=400, detail="Invalid task id")
      res = db["task"].update_one({"_id": oid}, {"$set": {"status": payload.status}})
      if res.matched_count == 0:
          raise HTTPException(status_code=404, detail="Task not found")
      return {"ok": True}
  \<close>
\<close>

definition update_task_status ::
    "string \<Rightarrow> TaskStatusUpdate \<Rightarrow> store \<Rightarrow> (error + bool) \<times> store" where
  "update_task_status task_id payload st =
     (case ObjectId task_id of
        Inl e \<Rightarrow> (Inl (HTTPException 400 ''Invalid task id''), st)
      | Inr oid \<Rightarrow>
          (case update_one st ''task'' [(''_id'', POid oid)] [(''status'', PStr (status payload))] of
             (matched_count, st') \<Rightarrow>
               if matched_count = 0 then (Inl (HTTPException 404 ''Task not found''), st')
               else (Inr True, st')))"

section \<open>Messages and the assistant's reply\<close>

record MessageCreate =
  sender :: string
  "text" :: string
  user_email :: "string option"
  topic :: "string option"

text \<open>\<^verbatim>\<open>payload.model_dump()\<close>: the four fields of the payload, in declaration order.\<close>

definition model_dump :: "MessageCreate \<Rightarrow> doc" where
  "model_dump payload =
     [(''sender'', PStr (sender payload)),
      (''text'', PStr (text payload)),
      (''user_email'', opt_str (user_email payload)),
      (''topic'', opt_str (topic payload))]"

text \<open>\<^verbatim>\<open>sep.join(xs)\<close>.\<close>

fun join :: "string \<Rightarrow> string list \<Rightarrow> string" where
  "join sep [] = []"
| "join sep [x] = x"
| "join sep (x # y # ys) = x @ sep @ join sep (y # ys)"

text \<open>
  The fixed sentences of the reply. The letters outside ASCII are written as their
  UTF-8 bytes: u-umlaut \<open>C3 BC\<close>, a-umlaut \<open>C3 A4\<close>, the em dash \<open>E2 80 94\<close> and the
  en dash \<open>E2 80 93\<close>.
\<close>

definition em_dash :: string where
  "em_dash = [CHR 0xE2, CHR 0x80, CHR 0x94]"

definition en_dash :: string where
  "en_dash = [CHR 0xE2, CHR 0x80, CHR 0x93]"

definition reply_intro :: string where
  "reply_intro =
     ''Basierend auf deinem aktuellen Backlog w'' @ [CHR 0xC3, CHR 0xBC]
     @ ''rde ich diese Schritte priorisieren:'' @ [CHR 0x0A]"

definition reply_closing :: string where
  "reply_closing =
     ''Nutze den Button 'Ich bin frei', um dir direkt den n'' @ [CHR 0xC3, CHR 0xA4]
     @ ''chsten Schritt zuzuweisen.''"

definition reply_fallback :: string where
  "reply_fallback =
     ''Ich sehe noch keine Aufgaben. Erstelle 3-5 klare, wirkungsstarke Tasks mit Impact,''
     @ '' Effort und Urgency '' @ en_dash @ '' dann priorisiere ich sie automatisch.''"

text \<open>
  \<^verbatim>\<open>f"- {t.get('title')} (score {score_task(t)}) - domain: {t.get('domain', 'general')}"\<close>
  (the dash before \<^verbatim>\<open>domain\<close> is the em dash).
\<close>

definition bullet :: "doc \<Rightarrow> error + string" where
  "bullet t =
     (case score_task t of
        Inl e \<Rightarrow> Inl e
      | Inr s \<Rightarrow>
          Inr (''- '' @ py_str (get t ''title'') @ '' (score '' @ show_int s @ '') '' @ em_dash
               @ '' domain: '' @ py_str (get_default t ''domain'' (PStr ''general''))))"

text \<open>
  \<^verbatim>\<open>
  def create_message(payload: MessageCreate):
      msg_dict = payload.model_dump()
      create_document("message", msg_dict)
      tasks = get_documents("task")
      tasks_sorted = sorted(tasks, key=score_task, reverse=True)
      top = [serialize_doc(t) for t in tasks_sorted[:3]]
      if top:
          bullets = "\n".join([f"- ..." for t in top])
          reply = (
              "Basierend auf ... priorisieren:\n"
              f"{bullets}\n\n"
              "Nutze den Button ... zuzuweisen."
          )
      else:
          reply = ("Ich sehe noch keine Aufgaben. ..." " Effort und Urgency ...")
      ai_msg = {
          "sender": "ai",
          "text": reply,
          "user_email": payload.user_email,
          "topic": payload.topic or "general",
      }
      create_document("message", ai_msg)
      return {"ok": True}
  \<close>
  The two identities the store generates for the two inserted messages are inputs;
  \<open>top_tasks\<close> is the source's \<^verbatim>\<open>top\<close>.
\<close>

definition compose_reply :: "doc list \<Rightarrow> error + string" where
  "compose_reply top_tasks =
     (if top_tasks \<noteq> [] then
        (case map_err bullet top_tasks of
           Inl e \<Rightarrow> Inl e
         | Inr bs \<Rightarrow>
             Inr (reply_intro @ join [CHR 0x0A] bs @ [CHR 0x0A, CHR 0x0A] @ reply_closing))
      else Inr reply_fallback)"

definition create_message ::
    "string \<Rightarrow> string \<Rightarrow> MessageCreate \<Rightarrow> store \<Rightarrow> (error + bool) \<times> store" where
  "create_message id1 id2 payload st =
     (let msg_dict = model_dump payload;
          st1 = snd (create_document id1 ''message'' msg_dict st);
          tasks = get_documents st1 ''task'' []
      in
        (case sorted_reverse score_task tasks of
           Inl e \<Rightarrow> (Inl e, st1)
         | Inr tasks_sorted \<Rightarrow>
             (let top_tasks = map serialize_doc (take 3 tasks_sorted) in
                (case compose_reply top_tasks of
                   Inl e \<Rightarrow> (Inl e, st1)
                 | Inr reply \<Rightarrow>
                     (let ai_msg =
                        [(''sender'', PStr ''ai''),
                         (''text'', PStr reply),
                         (''user_email'', opt_str (user_email payload)),
                         (''topic'',
                            PStr (case topic payload of
                                    None \<Rightarrow> ''general''
                                  | Some tp \<Rightarrow> if tp = [] then ''general'' else tp))]
                      in (Inr True, snd (create_document id2 ''message'' ai_msg st1)))))))"

section \<open>Notions used to state the properties\<close>

text \<open>A stored task carries the identity the store gave it.\<close>

definition has_oid :: "doc \<Rightarrow> bool" where
  "has_oid t = (case map_of t ''_id'' of Some (POid h) \<Rightarrow> True | _ \<Rightarrow> False)"

text \<open>
  The status enumeration of \<^verbatim>\<open>Task\<close> in \<^verbatim>\<open>src/schemas.py\<close>:
  \<^verbatim>\<open>Literal["backlog", "in_progress", "done", "blocked"]\<close>, and the invariant that every
  stored task has such a status.
\<close>

definition valid_status :: "pyval \<Rightarrow> bool" where
  "valid_status v =
     (v = PStr ''backlog'' \<or> v = PStr ''in_progress'' \<or> v = PStr ''done'' \<or> v = PStr ''blocked'')"

definition status_invariant :: "store \<Rightarrow> bool" where
  "status_invariant st = list_all (\<lambda>t. valid_status (get t ''status'')) (st ''task'')"

text \<open>
  The bullet the reply shows for a task \<open>t\<close> of score \<open>s\<close>, in terms of the stored task:
  its title, its score, and its domain, or \<^verbatim>\<open>general\<close> when the task has no domain field.
\<close>

definition bullet_line :: "doc \<Rightarrow> int \<Rightarrow> string" where
  "bullet_line t s =
     ''- '' @ py_str (get t ''title'') @ '' (score '' @ show_int s @ '') '' @ em_dash @ '' domain: ''
     @ (case map_of t ''domain'' of None \<Rightarrow> ''general'' | Some v \<Rightarrow> py_str v)"

text \<open>
  The two messages a call of \<open>create_message\<close> appends to the message collection: the
  submitted one, and the reply of sender \<^verbatim>\<open>ai\<close> with the text \<open>reply\<close>.
\<close>

definition stored_messages :: "string \<Rightarrow> string \<Rightarrow> MessageCreate \<Rightarrow> string \<Rightarrow> doc list" where
  "stored_messages id1 id2 payload reply =
     [[(''sender'', PStr (sender payload)),
       (''text'', PStr (text payload)),
       (''user_email'', opt_str (user_email payload)),
       (''topic'', opt_str (topic payload)),
       (''_id'', POid id1)],
      [(''sender'', PStr ''ai''),
       (''text'', PStr reply),
       (''user_email'', opt_str (user_email payload)),
       (''topic'', PStr (case topic payload of
                          None \<Rightarrow> ''general''
                        | Some tp \<Rightarrow> if tp = [] then ''general'' else tp)),
       (''_id'', POid id2)]]"

subsection \<open>Example data\<close>

text \<open>
  The backlog of the spec's example: tasks A and B both of score 10 (3 * 2 + 5 - 1), A
  unassigned and B assigned to \<^verbatim>\<open>u@x\<close>; a blocked task C of score 27 and a backlog
  task D of score 11 assigned to somebody else. A, B and D have no domain field.
\<close>

definition ex_task_A :: doc where
  "ex_task_A = [(''_id'', POid ''00000000000000000000000a''), (''title'', PStr ''A''),
     (''impact'', PInt 3), (''effort'', PInt 1), (''urgency'', PInt 5),
     (''status'', PStr ''backlog''), (''assignee'', PNone)]"

definition ex_task_B :: doc where
  "ex_task_B = [(''_id'', POid ''00000000000000000000000b''), (''title'', PStr ''B''),
     (''impact'', PInt 3), (''effort'', PInt 1), (''urgency'', PInt 5),
     (''status'', PStr ''backlog''), (''assignee'', PStr ''u@x'')]"

definition ex_task_C :: doc where
  "ex_task_C = [(''_id'', POid ''00000000000000000000000c''), (''title'', PStr ''C''),
     (''domain'', PStr ''growth''), (''impact'', PInt 10), (''effort'', PInt 2),
     (''urgency'', PInt 9), (''status'', PStr ''blocked'')]"

definition ex_task_D :: doc where
  "ex_task_D = [(''_id'', POid ''00000000000000000000000d''), (''title'', PStr ''D''),
     (''impact'', PInt 4), (''effort'', PInt 1), (''urgency'', PInt 4),
     (''status'', PStr ''backlog''), (''assignee'', PStr ''v@x'')]"

definition ex_store :: store where
  "ex_store = (\<lambda>c. if c = ''task'' then [ex_task_A, ex_task_B] else [])"

definition ex_store_mixed :: store where
  "ex_store_mixed = (\<lambda>c. if c = ''task'' then [ex_task_C, ex_task_D, ex_task_A] else [])"

text \<open>
  A task E as \<^verbatim>\<open>create_task\<close> stores it for the payload
  \<^verbatim>\<open>{"title": "E", "domain": null, "impact": 9, "effort": 1, "urgency": 9}\<close>: the dump
  of the \<^verbatim>\<open>Task\<close> model holds every field, the domain as \<^verbatim>\<open>None\<close>. Its score is
  9 * 2 + 9 - 1 = 26.
\<close>

definition ex_task_E :: doc where
  "ex_task_E = [(''title'', PStr ''E''), (''description'', PNone), (''domain'', PNone),
     (''impact'', PInt 9), (''effort'', PInt 1), (''urgency'', PInt 9),
     (''status'', PStr ''backlog''), (''assignee'', PNone),
     (''_id'', POid ''00000000000000000000000e'')]"

definition ex_store_unset_domain :: store where
  "ex_store_unset_domain = (\<lambda>c. if c = ''task'' then [ex_task_A, ex_task_B, ex_task_E] else [])"

definition ex_store_empty :: store where
  "ex_store_empty = (\<lambda>c. [])"

text \<open>
  The task \<open>next_task\<close> returns for B when \<^verbatim>\<open>u@x\<close> asks, and the example store after
  that call: B is in progress and assigned to \<^verbatim>\<open>u@x\<close>.
\<close>

definition ex_response_B :: doc where
  "ex_response_B = [(''title'', PStr ''B''), (''impact'', PInt 3), (''effort'', PInt 1),
        (''urgency'', PInt 5), (''status'', PStr ''in_progress''), (''assignee'', PStr ''u@x''),
        (''id'', PStr ''00000000000000000000000b''), (''score'', PInt 10)]"

definition ex_store_B_claimed :: store where
  "ex_store_B_claimed =
     ex_store(''task'' :=
       [ex_task_A,
        [(''_id'', POid ''00000000000000000000000b''), (''title'', PStr ''B''),
         (''impact'', PInt 3), (''effort'', PInt 1), (''urgency'', PInt 5),
         (''status'', PStr ''in_progress''), (''assignee'', PStr ''u@x'')]])"

text \<open>The task \<open>next_task\<close> returns for A when nobody claims it.\<close>

definition ex_response_A :: doc where
  "ex_response_A = [(''title'', PStr ''A''), (''impact'', PInt 3), (''effort'', PInt 1),
        (''urgency'', PInt 5), (''status'', PStr ''backlog''), (''assignee'', PNone),
        (''id'', PStr ''00000000000000000000000a''), (''score'', PInt 10)]"

section \<open>Auxiliary facts\<close>

subsection \<open>Documents and scores\<close>

lemma py_str_oid_to_str: "py_str (oid_to_str v) = py_str v"
  by (cases v) (simp_all add: oid_to_str_def)

lemma map_of_map_snd: "map_of (map (\<lambda>kv. (fst kv, g (snd kv))) xs) k = map_option g (map_of xs k)"
  by (induction xs) auto

lemma map_of_serialize_doc:
  "k \<noteq> ''_id'' \<Longrightarrow> k \<noteq> ''id'' \<Longrightarrow> map_of (serialize_doc t) k = map_option oid_to_str (map_of t k)"
  by (auto simp: serialize_doc_def map_of_map_snd update_conv' delete_conv' split: option.splits)

lemma map_of_serialize_doc_id:
  "map_of t ''_id'' = Some v \<Longrightarrow> map_of (serialize_doc t) ''id'' = Some (PStr (py_str v))"
proof -
  assume a: "map_of t ''_id'' = Some v"
  then have "t \<noteq> []" by auto
  then have "map_of (serialize_doc t) ''id'' = map_option oid_to_str (Some (PStr (py_str v)))"
    using a by (simp add: serialize_doc_def map_of_map_snd update_conv')
  then show ?thesis by (simp add: oid_to_str_def)
qed

lemma get_serialize_doc:
  "k \<noteq> ''_id'' \<Longrightarrow> k \<noteq> ''id'' \<Longrightarrow> get (serialize_doc t) k = oid_to_str (get t k)"
  by (simp add: get_def get_default_def map_of_serialize_doc oid_to_str_def split: option.splits)

lemma get_update: "get (AList.update k v t) k' = (if k' = k then v else get t k')"
  by (simp add: get_def get_default_def update_conv')

lemma task_ok_score_Inr: "task_ok t \<Longrightarrow> \<exists>s. score_task t = Inr s"
  by (auto simp: task_ok_def field_ok_def score_task_def get_default_def split: option.splits pyval.splits)

lemma task_ok_pref_Inr: "task_ok t \<Longrightarrow> \<exists>p. pref_score caller t = Inr p"
  using task_ok_score_Inr [of t] by (auto simp: pref_score_def Let_def)

lemma score_task_cong: 
  "map_of t' ''impact'' = map_of t ''impact'' \<Longrightarrow> map_of t' ''effort'' = map_of t ''effort'' \<Longrightarrow>
   map_of t' ''urgency'' = map_of t ''urgency'' \<Longrightarrow> score_task t' = score_task t"
  unfolding score_task_def get_default_def by (simp only:)

lemma field_ok_int: "field_ok t k \<Longrightarrow> map_option oid_to_str (map_of t k) = map_of t k"
  by (auto simp: field_ok_def oid_to_str_def split: option.splits pyval.splits)

lemma score_task_serialize_doc: "task_ok t \<Longrightarrow> score_task (serialize_doc t) = score_task t"
  by (rule score_task_cong) (simp_all add: map_of_serialize_doc field_ok_int task_ok_def)

lemma has_oid_D: "has_oid t \<Longrightarrow> \<exists>h. map_of t ''_id'' = Some (POid h)"
proof (cases "map_of t ''_id''")
  case None then show "has_oid t \<Longrightarrow> ?thesis" by (simp add: has_oid_def)
next
  case (Some v) then show "has_oid t \<Longrightarrow> ?thesis" by (cases v) (simp_all add: has_oid_def)
qed

subsection \<open>Sorting by a key that may raise\<close>

lemma map_err_Inr_D: "map_err f xs = Inr ys \<Longrightarrow> list_all2 (\<lambda>x y. f x = Inr y) xs ys"
proof (induction xs arbitrary: ys)
  case Nil then show ?case by simp
next
  case (Cons x xs)
  from Cons.prems obtain y zs where "f x = Inr y" "map_err f xs = Inr zs" "ys = y # zs"
    by (auto split: sum.splits)
  with Cons.IH show ?case by simp
qed

lemma map_err_total: "(\<forall>x \<in> set xs. \<exists>y. f x = Inr y) \<Longrightarrow> \<exists>ys. map_err f xs = Inr ys"
  by (induction xs) (auto split: sum.splits)

lemma hd_insort_key: "hd (insort_key f x xs) = (if xs = [] \<or> f x \<le> f (hd xs) then x else hd xs)"
  by (cases xs) auto

lemma sort_key_hd_first_min:
  "xs \<noteq> [] \<Longrightarrow> \<exists>i < length xs. hd (sort_key f xs) = xs ! i \<and> (\<forall>j < length xs. f (xs ! i) \<le> f (xs ! j)) \<and> (\<forall>j < i. f (xs ! i) < f (xs ! j))"
proof (induction xs)
  case Nil then show ?case by simp
next
  case (Cons x xs)
  show ?case
  proof (cases "xs = []")
    case True then show ?thesis by simp
  next
    case False
    from Cons.IH [OF False] obtain i where i: "i < length xs" "hd (sort_key f xs) = xs ! i"
      "\<forall>j < length xs. f (xs ! i) \<le> f (xs ! j)" "\<forall>j < i. f (xs ! i) < f (xs ! j)" by blast
    have ne: "sort_key f xs \<noteq> []" using False by (metis length_sort length_0_conv)
    show ?thesis
    proof (cases "f x \<le> f (xs ! i)")
      case True
      have "hd (sort_key f (x # xs)) = x" using True i ne by (simp add: hd_insort_key)
      moreover have "\<forall>j < length (x # xs). f x \<le> f ((x # xs) ! j)"
        using True i(3) by (auto simp: nth_Cons split: nat.splits)
      ultimately show ?thesis by (intro exI [of _ 0]) simp
    next
      case F: False
      have "hd (sort_key f (x # xs)) = xs ! i" using F i ne by (simp add: hd_insort_key)
      moreover have "\<forall>j < length (x # xs). f (xs ! i) \<le> f ((x # xs) ! j)"
        using F i(3) by (auto simp: nth_Cons split: nat.splits)
      moreover have "\<forall>j < Suc i. f (xs ! i) < f ((x # xs) ! j)"
        using F i(4) by (auto simp: nth_Cons split: nat.splits)
      ultimately show ?thesis using i(1) by (intro exI [of _ "Suc i"]) simp
    qed
  qed
qed

lemma sorted_reverse_D:
  assumes "sorted_reverse key xs = Inr ys"
  obtains ks where "list_all2 (\<lambda>x k. key x = Inr k) xs ks"
    and "ys = map snd (sort_key (\<lambda>kx. - fst kx) (zip ks xs))"
  using assms by (auto simp: sorted_reverse_def split: sum.splits dest: map_err_Inr_D)

lemma sorted_reverse_length: "sorted_reverse key xs = Inr ys \<Longrightarrow> length ys = length xs"
  by (erule sorted_reverse_D) (simp add: list_all2_lengthD)

lemma sorted_reverse_set: 
  assumes "sorted_reverse key xs = Inr ys" shows "set ys = set xs"
proof -
  from assms obtain ks where ks: "list_all2 (\<lambda>x k. key x = Inr k) xs ks"
    and ys: "ys = map snd (sort_key (\<lambda>kx. - fst kx) (zip ks xs))" by (rule sorted_reverse_D)
  have len: "length ks = length xs" using ks by (simp add: list_all2_lengthD)
  have "set ys = snd ` set (zip ks xs)" using ys by simp
  also have "\<dots> = set (map snd (zip ks xs))" by simp
  also have "\<dots> = set xs" using len by simp
  finally show ?thesis .
qed

lemma sorted_reverse_total:
  "(\<forall>x \<in> set xs. \<exists>k. key x = Inr k) \<Longrightarrow> \<exists>ys. sorted_reverse key xs = Inr ys"
  using map_err_total [of xs key] by (auto simp: sorted_reverse_def)

lemma sorted_reverse_first:
  assumes "sorted_reverse key xs = Inr (b # rest)"
  shows "\<exists>i < length xs. \<exists>p. b = xs ! i \<and> key (xs ! i) = Inr p
           \<and> (\<forall>j < length xs. \<exists>q. key (xs ! j) = Inr q \<and> q \<le> p)
           \<and> (\<forall>j < i. \<exists>q. key (xs ! j) = Inr q \<and> q < p)"
proof -
  from assms obtain ks where ks: "list_all2 (\<lambda>x k. key x = Inr k) xs ks"
    and ys: "b # rest = map snd (sort_key (\<lambda>kx. - fst kx) (zip ks xs))" by (rule sorted_reverse_D)
  let ?g = "\<lambda>kx :: int \<times> 'a. - fst kx"
  let ?zs = "zip ks xs"
  have len: "length ks = length xs" using ks by (simp add: list_all2_lengthD)
  have keys: "\<And>j. j < length xs \<Longrightarrow> key (xs ! j) = Inr (ks ! j)"
    using ks by (simp add: list_all2_conv_all_nth)
  have "sort_key ?g ?zs \<noteq> []" using ys by auto
  then have ne: "?zs \<noteq> []" by auto
  from sort_key_hd_first_min [OF ne, of ?g] obtain i where i: "i < length ?zs"
    "hd (sort_key ?g ?zs) = ?zs ! i"
    "\<forall>j < length ?zs. ?g (?zs ! i) \<le> ?g (?zs ! j)" "\<forall>j < i. ?g (?zs ! i) < ?g (?zs ! j)" by blast
  have lz: "length ?zs = length xs" using len by simp
  have b: "b = snd (hd (sort_key ?g ?zs))" using ys by (cases "sort_key ?g ?zs") auto
  have "b = xs ! i" using b i(1,2) lz by simp
  moreover have "key (xs ! i) = Inr (ks ! i)" using keys i(1) lz by simp
  moreover have "\<forall>j < length xs. \<exists>q. key (xs ! j) = Inr q \<and> q \<le> ks ! i"
  proof (intro allI impI)
    fix j assume j: "j < length xs"
    then have "?g (?zs ! i) \<le> ?g (?zs ! j)" using i(3) lz by simp
    then have "ks ! j \<le> ks ! i" using j i(1) lz len by simp
    with keys [OF j] show "\<exists>q. key (xs ! j) = Inr q \<and> q \<le> ks ! i" by simp
  qed
  moreover have "\<forall>j < i. \<exists>q. key (xs ! j) = Inr q \<and> q < ks ! i"
  proof (intro allI impI)
    fix j assume j: "j < i"
    then have jl: "j < length xs" using i(1) lz by simp
    have "?g (?zs ! i) < ?g (?zs ! j)" using i(4) j by simp
    then have "ks ! j < ks ! i" using jl i(1) lz len by simp
    with keys [OF jl] show "\<exists>q. key (xs ! j) = Inr q \<and> q < ks ! i" by simp
  qed
  ultimately show ?thesis using i(1) lz by auto
qed

lemma sorted_reverse_desc:
  assumes "sorted_reverse key xs = Inr ys"
  shows "\<exists>ks'. list_all2 (\<lambda>y k. key y = Inr k) ys ks' \<and> sorted (map uminus ks')"
proof -
  from assms obtain ks where ks: "list_all2 (\<lambda>x k. key x = Inr k) xs ks"
    and ys: "ys = map snd (sort_key (\<lambda>kx. - fst kx) (zip ks xs))" by (rule sorted_reverse_D)
  let ?L = "sort_key (\<lambda>kx. - fst kx) (zip ks xs)"
  have "\<forall>p \<in> set (zip ks xs). key (snd p) = Inr (fst p)"
    using ks by (auto simp: list_all2_conv_all_nth in_set_zip)
  then have "\<forall>p \<in> set ?L. key (snd p) = Inr (fst p)" by simp
  then have "list_all2 (\<lambda>y k. key y = Inr k) (map snd ?L) (map fst ?L)"
    by (simp add: list_all2_map1 list_all2_map2 list_all2_same)
  moreover have "sorted (map (\<lambda>kx. - fst kx) ?L)" by (rule sorted_sort_key)
  then have "sorted (map uminus (map fst ?L))" by (simp add: comp_def)
  ultimately show ?thesis using ys by blast
qed

subsection \<open>The store\<close>

lemma doc_matches_single: "doc_matches [(k, v)] d \<longleftrightarrow> map_of d k = Some v"
  by (simp add: doc_matches_def)

lemma get_documents_field:
  "d \<in> set (get_documents st c [(k, v)]) \<Longrightarrow> d \<in> set (st c) \<and> map_of d k = Some v"
  by (simp add: get_documents_def doc_matches_def)


lemma update_first_at:
  "i < length ds \<Longrightarrow> doc_matches flt (ds ! i) \<Longrightarrow> \<forall>j < i. \<not> doc_matches flt (ds ! j) \<Longrightarrow>
   update_first flt asg ds = (1, ds[i := set_fields asg (ds ! i)])"
proof (induction ds arbitrary: i)
  case Nil then show ?case by simp
next
  case (Cons d ds)
  show ?case
  proof (cases i)
    case 0 with Cons.prems show ?thesis by simp
  next
    case (Suc k)
    with Cons.prems have k: "k < length ds" "doc_matches flt (ds ! k)" by simp_all
    have "\<forall>j < k. \<not> doc_matches flt (ds ! j)"
    proof (intro allI impI)
      fix j assume "j < k"
      then have "Suc j < i" using Suc by simp
      with Cons.prems(3) have "\<not> doc_matches flt ((d # ds) ! Suc j)" by blast
      then show "\<not> doc_matches flt (ds ! j)" by simp
    qed
    from Cons.IH [OF k this] have ih: "update_first flt asg ds = (1, ds[k := set_fields asg (ds ! k)])" .
    have "\<not> doc_matches flt d" using Cons.prems(3) Suc by (metis nth_Cons_0 zero_less_Suc)
    with ih Suc show ?thesis by simp
  qed
qed


lemma distinct_ids_first:
  assumes "distinct (map (\<lambda>t. map_of t ''_id'') ds)" "i < length ds" "map_of (ds ! i) ''_id'' = Some v"
  shows "\<forall>j < i. \<not> doc_matches [(''_id'', v)] (ds ! j)"
proof (intro allI impI)
  fix j assume j: "j < i"
  then have jl: "j < length ds" using assms(2) by simp
  have "map (\<lambda>t. map_of t ''_id'') ds ! j \<noteq> map (\<lambda>t. map_of t ''_id'') ds ! i"
    using assms(1,2) j jl by (simp add: nth_eq_iff_index_eq del: nth_map)
  then have "map_of (ds ! j) ''_id'' \<noteq> Some v" using assms(2,3) jl by simp
  then show "\<not> doc_matches [(''_id'', v)] (ds ! j)" by (simp add: doc_matches_single)
qed

lemma tasks_after_insert:
  "get_documents (snd (create_document new_id ''message'' d st)) ''task'' [] = st ''task''"
  by (simp add: create_document_def get_documents_def doc_matches_def)

subsection \<open>The parts of next_task\<close>

lemma candidate_pool_cases:
  "candidate_pool st =
     (if get_documents st ''task'' [(''status'', PStr ''backlog'')] \<noteq> []
      then get_documents st ''task'' [(''status'', PStr ''backlog'')]
      else get_documents st ''task'' [(''status'', PStr ''blocked'')])"
  by (simp add: candidate_pool_def Let_def)

lemma next_task_Selected_D:
  assumes "next_task caller st = (Inr (Selected d), st')"
  shows "\<exists>best rest. candidate_pool st \<noteq> []
     \<and> sorted_reverse (pref_score caller) (candidate_pool st) = Inr (best # rest)
     \<and> claim_and_respond caller best st = (Inr (Selected d), st')"
proof -
  have ne: "candidate_pool st \<noteq> []" using assms by (auto simp: next_task_def Let_def)
  then have eq: "next_task caller st =
      (case sorted_reverse (pref_score caller) (candidate_pool st) of
         Inl e \<Rightarrow> (Inl e, st)
       | Inr [] \<Rightarrow> (Inl IndexError, st)
       | Inr (best # rest) \<Rightarrow> claim_and_respond caller best st)"
    by (simp add: next_task_def Let_def)
  show ?thesis
  proof (cases "sorted_reverse (pref_score caller) (candidate_pool st)")
    case (Inl e) with eq assms show ?thesis by simp
  next
    case (Inr ys)
    show ?thesis
    proof (cases ys)
      case Nil with Inr eq assms show ?thesis by simp
    next
      case (Cons b rest) with Inr eq assms ne show ?thesis by simp
    qed
  qed
qed

lemma next_task_unfold:
  "sorted_reverse (pref_score caller) (candidate_pool st) = Inr (best # rest) \<Longrightarrow>
   next_task caller st = claim_and_respond caller best st"
proof -
  assume a: "sorted_reverse (pref_score caller) (candidate_pool st) = Inr (best # rest)"
  then have "length (best # rest) = length (candidate_pool st)" by (rule sorted_reverse_length)
  then have "candidate_pool st \<noteq> []" by auto
  with a show ?thesis by (simp add: next_task_def Let_def)
qed

lemma claim_and_respond_Selected_D:
  assumes "claim_and_respond caller best st = (Inr (Selected d), st')"
  shows "\<exists>s. score_task best = Inr s \<and>
    d = AList.update ''score'' (PInt s)
          (if given caller \<and> get best ''status'' = PStr ''backlog''
           then AList.update ''assignee'' (opt_str caller)
                  (AList.update ''status'' (PStr ''in_progress'') (serialize_doc best))
           else serialize_doc best)"
  using assms
  by (auto simp: claim_and_respond_def Let_def split: if_splits option.splits sum.splits)

lemma claim_and_respond_total:
  assumes "task_ok best" "has_oid best"
  shows "\<exists>d st'. claim_and_respond caller best st = (Inr (Selected d), st')"
proof -
  from assms(1) obtain s where "score_task best = Inr s" using task_ok_score_Inr by blast
  moreover from assms(2) obtain h where "map_of best ''_id'' = Some (POid h)"
    by (auto simp: has_oid_def split: option.splits pyval.splits)
  ultimately show ?thesis by (simp add: claim_and_respond_def Let_def)
qed

lemma claim_and_respond_no_write:
  "\<not> (given caller \<and> get best ''status'' = PStr ''backlog'') \<Longrightarrow>
   snd (claim_and_respond caller best st) = st"
  by (auto simp: claim_and_respond_def Let_def split: sum.splits)

lemma next_task_no_write:
  assumes "\<not> given caller \<or> get_documents st ''task'' [(''status'', PStr ''backlog'')] = []"
  shows "snd (next_task caller st) = st"
proof (cases "candidate_pool st = []")
  case True then show ?thesis by (simp add: next_task_def)
next
  case ne: False
  show ?thesis
  proof (cases "sorted_reverse (pref_score caller) (candidate_pool st)")
    case (Inl e) with ne show ?thesis by (simp add: next_task_def)
  next
    case (Inr ys)
    show ?thesis
    proof (cases ys)
      case Nil with Inr ne show ?thesis by (simp add: next_task_def)
    next
      case (Cons best rest)
      have nt: "next_task caller st = claim_and_respond caller best st"
        using next_task_unfold Inr Cons by simp
      have "\<not> (given caller \<and> get best ''status'' = PStr ''backlog'')"
      proof (cases "given caller")
        case False then show ?thesis by simp
      next
        case True
        with assms have e: "get_documents st ''task'' [(''status'', PStr ''backlog'')] = []" by simp
        have "best \<in> set (candidate_pool st)" using sorted_reverse_set [OF Inr] Cons by auto
        then have "best \<in> set (get_documents st ''task'' [(''status'', PStr ''blocked'')])"
          using e by (simp add: candidate_pool_cases)
        then have "get best ''status'' = PStr ''blocked''"
          using get_documents_field by (fastforce simp: get_def get_default_def)
        then show ?thesis by simp
      qed
      then show ?thesis unfolding nt by (rule claim_and_respond_no_write)
    qed
  qed
qed

lemma next_task_claims:
  assumes u: "caller = Some u" "u \<noteq> []"
    and b: "get_documents st ''task'' [(''status'', PStr ''backlog'')] \<noteq> []"
    and ok: "list_all task_ok (st ''task'')"
    and oid: "list_all has_oid (st ''task'')"
    and dist: "distinct (map (\<lambda>t. map_of t ''_id'') (st ''task''))"
  shows "\<exists>i < length (st ''task''). \<exists>d.
          st ''task'' ! i \<in> set (get_documents st ''task'' [(''status'', PStr ''backlog'')])
        \<and> next_task caller st =
            (Inr (Selected d),
             st(''task'' := (st ''task'')[i := AList.update ''assignee'' (PStr u)
                     (AList.update ''status'' (PStr ''in_progress'') (st ''task'' ! i))]))
        \<and> snd (next_task caller st) \<noteq> st
        \<and> get d ''status'' = PStr ''in_progress''
        \<and> get d ''assignee'' = PStr u
        \<and> map_of d ''id'' = Some (PStr (py_str (get (st ''task'' ! i) ''_id'')))"
proof -
  let ?tasks = "st ''task''"
  let ?pool = "candidate_pool st"
  have pool: "?pool = get_documents st ''task'' [(''status'', PStr ''backlog'')]"
    using b by (simp add: candidate_pool_cases)
  have sub: "set ?pool \<subseteq> set ?tasks" unfolding pool by (auto simp: get_documents_def)
  have g: "given caller" using u by (simp add: given_def)
  have "\<forall>t \<in> set ?pool. \<exists>p. pref_score caller t = Inr p"
    using ok sub task_ok_pref_Inr by (auto simp: list_all_iff)
  then obtain ys where ys: "sorted_reverse (pref_score caller) ?pool = Inr ys"
    using sorted_reverse_total by blast
  then have "length ys = length ?pool" by (rule sorted_reverse_length)
  with b pool obtain best rest where br: "ys = best # rest" by (cases ys) auto
  have mem: "best \<in> set ?pool" using sorted_reverse_set [OF ys] br by auto
  then have bt: "best \<in> set ?tasks" using sub by blast
  have stat: "map_of best ''status'' = Some (PStr ''backlog'')"
    using mem get_documents_field unfolding pool by blast
  then have gstat: "get best ''status'' = PStr ''backlog''" by (simp add: get_def get_default_def)
  from bt ok obtain s where s: "score_task best = Inr s"
    using task_ok_score_Inr by (auto simp: list_all_iff)
  from bt oid have "has_oid best" by (auto simp: list_all_iff)
  then obtain h where h: "map_of best ''_id'' = Some (POid h)" using has_oid_D by blast
  from bt obtain i where i: "i < length ?tasks" "?tasks ! i = best" by (auto simp: in_set_conv_nth)
  let ?new = "AList.update ''assignee'' (PStr u) (AList.update ''status'' (PStr ''in_progress'') best)"
  have m: "doc_matches [(''_id'', POid h)] (?tasks ! i)" using i h by (simp add: doc_matches_single)
  have nm: "\<forall>j < i. \<not> doc_matches [(''_id'', POid h)] (?tasks ! j)"
    using distinct_ids_first [OF dist i(1)] i(2) h by simp
  have uf: "update_first [(''_id'', POid h)] [(''status'', PStr ''in_progress''), (''assignee'', PStr u)] ?tasks
      = (1, ?tasks[i := ?new])"
    using update_first_at [OF i(1) m nm] i(2) by simp
  let ?d = "AList.update ''score'' (PInt s) (AList.update ''assignee'' (PStr u)
              (AList.update ''status'' (PStr ''in_progress'') (serialize_doc best)))"
  have cr: "claim_and_respond caller best st = (Inr (Selected ?d), st(''task'' := ?tasks[i := ?new]))"
    using g gstat h s uf u by (simp add: claim_and_respond_def Let_def update_one_def opt_str_def)
  have nt: "next_task caller st = (Inr (Selected ?d), st(''task'' := ?tasks[i := ?new]))"
    using next_task_unfold [OF ys [unfolded br]] cr by simp
  have "map_of ?new ''status'' \<noteq> map_of best ''status''" using stat by (simp add: update_conv')
  then have "?new \<noteq> best" by auto
  then have "?tasks[i := ?new] \<noteq> ?tasks" using i by (metis nth_list_update_eq)
  then have "st(''task'' := ?tasks[i := ?new]) \<noteq> st" by (metis fun_upd_same)
  then have ch: "snd (next_task caller st) \<noteq> st" using nt by simp
  have "get ?d ''status'' = PStr ''in_progress''" "get ?d ''assignee'' = PStr u"
    by (simp_all add: get_update)
  moreover have "map_of ?d ''id'' = Some (PStr (py_str (get best ''_id'')))"
    using map_of_serialize_doc_id [OF h] h by (simp add: update_conv' get_def get_default_def)
  moreover have "?tasks ! i \<in> set (get_documents st ''task'' [(''status'', PStr ''backlog'')])"
    using mem i pool by simp
  ultimately show ?thesis using i nt ch by (intro exI [of _ i] conjI exI [of _ ?d]) simp_all
qed

subsection \<open>The reply\<close>

lemma create_message_result:
  assumes "sorted_reverse score_task (st ''task'') = Inr ys"
    and "compose_reply (map serialize_doc (take 3 ys)) = Inr reply"
  shows "create_message id1 id2 payload st =
           (Inr True, st(''message'' := st ''message'' @ stored_messages id1 id2 payload reply))"
  using assms
  by (simp add: create_message_def Let_def tasks_after_insert)
     (simp add: create_document_def model_dump_def stored_messages_def fun_eq_iff)

lemma bullet_serialize_doc:
  assumes "task_ok t" "score_task t = Inr s"
  shows "bullet (serialize_doc t) = Inr (bullet_line t s)"
proof -
  have "score_task (serialize_doc t) = Inr s" using assms by (simp add: score_task_serialize_doc)
  moreover have "py_str (get (serialize_doc t) ''title'') = py_str (get t ''title'')"
    by (simp add: get_serialize_doc py_str_oid_to_str)
  moreover have "py_str (get_default (serialize_doc t) ''domain'' (PStr ''general''))
      = (case map_of t ''domain'' of None \<Rightarrow> ''general'' | Some v \<Rightarrow> py_str v)"
    by (simp add: get_default_def map_of_serialize_doc py_str_oid_to_str split: option.splits)
  ultimately show ?thesis by (simp add: bullet_def bullet_line_def)
qed

lemma compose_reply_three:
  assumes "task_ok t1" "task_ok t2" "task_ok t3"
    "score_task t1 = Inr s1" "score_task t2 = Inr s2" "score_task t3 = Inr s3"
  shows "compose_reply (map serialize_doc (take 3 (t1 # t2 # t3 # rest))) =
     Inr (reply_intro @ bullet_line t1 s1 @ [CHR 0x0A] @ bullet_line t2 s2 @ [CHR 0x0A]
          @ bullet_line t3 s3 @ [CHR 0x0A, CHR 0x0A] @ reply_closing)"
proof -
  have "take 3 (t1 # t2 # t3 # rest) = [t1, t2, t3]" by (simp add: numeral_3_eq_3)
  then show ?thesis using assms by (simp add: compose_reply_def bullet_serialize_doc)
qed

lemma compose_reply_total:
  assumes "\<forall>t \<in> set ts. task_ok t"
  shows "\<exists>reply. compose_reply (map serialize_doc ts) = Inr reply"
proof -
  have "\<forall>d \<in> set (map serialize_doc ts). \<exists>b. bullet d = Inr b"
    using assms task_ok_score_Inr bullet_serialize_doc by fastforce
  from map_err_total [OF this] obtain bs where "map_err bullet (map serialize_doc ts) = Inr bs" by blast
  then show ?thesis by (simp add: compose_reply_def)
qed

text \<open>
  The text of the reply on a store whose tasks honor the field invariant: with three
  tasks or more, the introductory sentence, the bullets of the first three tasks of the
  ranking by score (their scores descend, and no other task has a score above the
  third's), an empty line and the closing sentence; with no task, the fallback sentence.
\<close>

lemma create_message_reply_text:
  assumes "list_all task_ok (st ''task'')"
  shows "(3 \<le> length (st ''task'') \<longrightarrow>
           (\<exists>t1 t2 t3 rest s1 s2 s3.
               sorted_reverse score_task (st ''task'') = Inr (t1 # t2 # t3 # rest)
             \<and> set (t1 # t2 # t3 # rest) = set (st ''task'')
             \<and> length (t1 # t2 # t3 # rest) = length (st ''task'')
             \<and> score_task t1 = Inr s1 \<and> score_task t2 = Inr s2 \<and> score_task t3 = Inr s3
             \<and> s2 \<le> s1 \<and> s3 \<le> s2
             \<and> (\<forall>t \<in> set rest. \<exists>s. score_task t = Inr s \<and> s \<le> s3)
             \<and> create_message id1 id2 payload st =
                 (Inr True, st(''message'' := st ''message'' @ stored_messages id1 id2 payload
                    (reply_intro @ bullet_line t1 s1 @ [CHR 0x0A] @ bullet_line t2 s2 @ [CHR 0x0A]
                     @ bullet_line t3 s3 @ [CHR 0x0A, CHR 0x0A] @ reply_closing)))))
       \<and> (st ''task'' = [] \<longrightarrow>
            create_message id1 id2 payload st =
              (Inr True, st(''message'' := st ''message'' @ stored_messages id1 id2 payload reply_fallback)))"
proof (intro conjI impI)
  assume len: "3 \<le> length (st ''task'')"
  have "\<forall>t \<in> set (st ''task''). \<exists>s. score_task t = Inr s"
    using assms task_ok_score_Inr by (auto simp: list_all_iff)
  then obtain ys where ys: "sorted_reverse score_task (st ''task'') = Inr ys"
    using sorted_reverse_total by blast
  have ly: "length ys = length (st ''task'')" using ys by (rule sorted_reverse_length)
  have sy: "set ys = set (st ''task'')" using ys by (rule sorted_reverse_set)
  from ly len obtain t1 t2 t3 rest where sh: "ys = t1 # t2 # t3 # rest"
    by (cases ys; cases "tl ys"; cases "tl (tl ys)") auto
  from sorted_reverse_desc [OF ys] obtain ks where ks: "list_all2 (\<lambda>y k. score_task y = Inr k) ys ks"
    and so: "sorted (map uminus ks)" by blast
  from ks sh obtain s1 s2 s3 krest where kk: "ks = s1 # s2 # s3 # krest"
    and sc: "score_task t1 = Inr s1" "score_task t2 = Inr s2" "score_task t3 = Inr s3"
    and rest: "list_all2 (\<lambda>y k. score_task y = Inr k) rest krest"
    by (auto simp: list_all2_Cons1)
  have ord: "s2 \<le> s1" "s3 \<le> s2" "\<forall>k \<in> set krest. k \<le> s3" using so kk by auto
  have r: "\<forall>t \<in> set rest. \<exists>s. score_task t = Inr s \<and> s \<le> s3"
  proof
    fix t assume "t \<in> set rest"
    then obtain n where n: "n < length rest" "rest ! n = t" by (auto simp: in_set_conv_nth)
    with rest have "score_task t = Inr (krest ! n)" "n < length krest"
      by (auto simp: list_all2_conv_all_nth)
    with ord(3) show "\<exists>s. score_task t = Inr s \<and> s \<le> s3" by auto
  qed
  have ok: "task_ok t1" "task_ok t2" "task_ok t3"
    using assms sy sh by (auto simp: list_all_iff)
  from create_message_result [where st = st and ?id1.0 = id1 and ?id2.0 = id2 and payload = payload, OF ys]
    compose_reply_three [OF ok sc, of rest] sh
  have "create_message id1 id2 payload st =
      (Inr True, st(''message'' := st ''message'' @ stored_messages id1 id2 payload
         (reply_intro @ bullet_line t1 s1 @ [CHR 0x0A] @ bullet_line t2 s2 @ [CHR 0x0A]
          @ bullet_line t3 s3 @ [CHR 0x0A, CHR 0x0A] @ reply_closing)))" by simp
  with ys sh sy ly sc ord(1,2) r
  show "\<exists>t1 t2 t3 rest s1 s2 s3.
               sorted_reverse score_task (st ''task'') = Inr (t1 # t2 # t3 # rest)
             \<and> set (t1 # t2 # t3 # rest) = set (st ''task'')
             \<and> length (t1 # t2 # t3 # rest) = length (st ''task'')
             \<and> score_task t1 = Inr s1 \<and> score_task t2 = Inr s2 \<and> score_task t3 = Inr s3
             \<and> s2 \<le> s1 \<and> s3 \<le> s2
             \<and> (\<forall>t \<in> set rest. \<exists>s. score_task t = Inr s \<and> s \<le> s3)
             \<and> create_message id1 id2 payload st =
                 (Inr True, st(''message'' := st ''message'' @ stored_messages id1 id2 payload
                    (reply_intro @ bullet_line t1 s1 @ [CHR 0x0A] @ bullet_line t2 s2 @ [CHR 0x0A]
                     @ bullet_line t3 s3 @ [CHR 0x0A, CHR 0x0A] @ reply_closing)))"
    by (intro exI [of _ t1] exI [of _ t2] exI [of _ t3] exI [of _ rest]
              exI [of _ s1] exI [of _ s2] exI [of _ s3]) simp
next
  assume e: "st ''task'' = []"
  have "sorted_reverse score_task (st ''task'') = Inr []" using e by (simp add: sorted_reverse_def)
  moreover have "compose_reply (map serialize_doc (take 3 [])) = Inr reply_fallback"
    by (simp add: compose_reply_def)
  ultimately show "create_message id1 id2 payload st =
      (Inr True, st(''message'' := st ''message'' @ stored_messages id1 id2 payload reply_fallback))"
    by (rule create_message_result [where st = st])
qed

subsection \<open>The example data evaluated\<close>

lemmas ex_defs = ex_task_A_def ex_task_B_def ex_task_C_def ex_task_D_def

lemma ex_task_ok: "task_ok ex_task_A" "task_ok ex_task_B" "task_ok ex_task_C" "task_ok ex_task_D"
  by (simp_all add: task_ok_def field_ok_def ex_defs)

lemma ex_has_oid: "has_oid ex_task_A" "has_oid ex_task_B" "has_oid ex_task_C" "has_oid ex_task_D"
  by (simp_all add: has_oid_def ex_defs)

lemma ex_scores: "score_task ex_task_A = Inr 10" "score_task ex_task_B = Inr 10"
  by (simp_all add: score_task_def get_default_def ex_task_A_def ex_task_B_def)

lemma ex_scores_CD: "score_task ex_task_C = Inr 27" "score_task ex_task_D = Inr 11"
  by (simp_all add: score_task_def get_default_def ex_defs)

lemma ex_prefs: "pref_score (Some ''u@x'') ex_task_A = Inr 12" "pref_score (Some ''u@x'') ex_task_B = Inr 15"
  by (simp_all add: pref_score_def ex_scores given_def opt_str_def get_def get_default_def)
     (simp_all add: ex_task_A_def ex_task_B_def)

lemma ex_prefs_None: "pref_score None ex_task_D = Inr 11" "pref_score None ex_task_A = Inr 12"
  by (simp_all add: pref_score_def ex_scores ex_scores_CD given_def get_def get_default_def)
     (simp_all add: ex_defs)

lemma ex_store_task: "ex_store ''task'' = [ex_task_A, ex_task_B]"
  by (simp add: ex_store_def)

lemma ex_backlog: "get_documents ex_store ''task'' [(''status'', PStr ''backlog'')] = [ex_task_A, ex_task_B]"
  by (simp add: get_documents_def doc_matches_def ex_store_task) (simp add: ex_defs)

lemma ex_pool: "candidate_pool ex_store = [ex_task_A, ex_task_B]"
  by (simp add: candidate_pool_def get_documents_def doc_matches_def ex_store_def)
     (simp add: ex_task_A_def ex_task_B_def)

lemma ex_pool_ok: "candidate_pool ex_store \<noteq> []" "list_all task_ok (candidate_pool ex_store)"
    "list_all has_oid (candidate_pool ex_store)"
  by (simp_all add: ex_pool ex_task_ok ex_has_oid)

lemma ex_distinct: "distinct (map (\<lambda>t. map_of t ''_id'') [ex_task_A, ex_task_B])"
  by (simp add: ex_defs)

lemma ex_sorted: "sorted_reverse (pref_score (Some ''u@x'')) [ex_task_A, ex_task_B] = Inr [ex_task_B, ex_task_A]"
  by (simp add: sorted_reverse_def ex_prefs)

lemma ex_serialize_B:
  "serialize_doc ex_task_B = [(''title'', PStr ''B''), (''impact'', PInt 3), (''effort'', PInt 1),
        (''urgency'', PInt 5), (''status'', PStr ''backlog''), (''assignee'', PStr ''u@x''),
        (''id'', PStr ''00000000000000000000000b'')]"
  by (simp add: ex_task_B_def serialize_doc_def oid_to_str_def)

lemma ex_update_one_B:
  "update_one ex_store ''task'' [(''_id'', POid ''00000000000000000000000b'')]
      [(''status'', PStr ''in_progress''), (''assignee'', PStr ''u@x'')] = (1, ex_store_B_claimed)"
  by (simp add: update_one_def ex_store_task doc_matches_def ex_store_B_claimed_def)
     (simp add: ex_defs)

lemma ex_claim_B:
  "claim_and_respond (Some ''u@x'') ex_task_B ex_store = (Inr (Selected ex_response_B), ex_store_B_claimed)"
proof -
  have g: "given (Some ''u@x'')" by (simp add: given_def)
  have st: "get ex_task_B ''status'' = PStr ''backlog''"
    by (simp add: get_def get_default_def ex_task_B_def)
  have i: "map_of ex_task_B ''_id'' = Some (POid ''00000000000000000000000b'')"
    by (simp add: ex_task_B_def)
  show ?thesis
    by (simp add: claim_and_respond_def Let_def g st i ex_scores ex_serialize_B ex_update_one_B
          opt_str_def ex_response_B_def)
qed

lemma ex_next_B:
  "next_task (Some ''u@x'') ex_store = (Inr (Selected ex_response_B), ex_store_B_claimed)"
  using next_task_unfold [of "Some ''u@x''" ex_store ex_task_B "[ex_task_A]"] ex_sorted ex_pool ex_claim_B
  by simp

lemma ex_mixed_backlog:
  "get_documents ex_store_mixed ''task'' [(''status'', PStr ''backlog'')] = [ex_task_D, ex_task_A]"
  by (simp add: get_documents_def doc_matches_def ex_store_mixed_def) (simp add: ex_defs)

lemma ex_mixed_pool: "candidate_pool ex_store_mixed = [ex_task_D, ex_task_A]"
  by (simp add: candidate_pool_def ex_mixed_backlog)

lemma ex_mixed_sorted:
  "sorted_reverse (pref_score None) [ex_task_D, ex_task_A] = Inr [ex_task_A, ex_task_D]"
  by (simp add: sorted_reverse_def ex_prefs_None)

lemma ex_mixed_next: "next_task None ex_store_mixed = (Inr (Selected ex_response_A), ex_store_mixed)"
  by (simp add: next_task_def ex_mixed_pool ex_mixed_sorted claim_and_respond_def ex_scores given_def)
     (simp add: ex_task_A_def serialize_doc_def oid_to_str_def ex_response_A_def)

lemma ex_empty_docs: "get_documents ex_store_empty c flt = []"
  by (simp add: get_documents_def ex_store_empty_def)

lemma ObjectId_ex: "ObjectId ''00000000000000000000000b'' = Inr ''00000000000000000000000b''"
  "ObjectId ''00000000000000000000000f'' = Inr ''00000000000000000000000f''"
  "ObjectId ''not-an-id'' = Inl InvalidId"
  "ObjectId ''0000 0000 0000 0000 0000'' = Inr ''00000000000000000000''"
  by (simp_all add: ObjectId_def is_hex_def lower_hex_def is_space_def)

lemma ex_update_B:
  "update_task_status ''00000000000000000000000b'' \<lparr>status = ''archived''\<rparr> ex_store =
     (Inr True, ex_store(''task'' := [ex_task_A,
        AList.update ''status'' (PStr ''archived'') ex_task_B]))"
  by (simp add: update_task_status_def ObjectId_ex update_one_def ex_store_def doc_matches_def)
     (simp add: ex_defs fun_eq_iff)

lemma digit_chars:
  "char_of (48::nat) = CHR ''0''" "char_of (49::nat) = CHR ''1''" "char_of (50::nat) = CHR ''2''"
  "char_of (51::nat) = CHR ''3''" "char_of (52::nat) = CHR ''4''" "char_of (53::nat) = CHR ''5''"
  "char_of (54::nat) = CHR ''6''" "char_of (55::nat) = CHR ''7''" "char_of (56::nat) = CHR ''8''"
  "char_of (57::nat) = CHR ''9''"
  by code_simp+

lemma ex_task_E_ok: "task_ok ex_task_E" "score_task ex_task_E = Inr 26"
  "map_of ex_task_E ''domain'' = Some PNone"
  by (simp_all add: task_ok_def field_ok_def score_task_def get_default_def ex_task_E_def)

lemma ex_unset_task: "ex_store_unset_domain ''task'' = [ex_task_A, ex_task_B, ex_task_E]"
  by (simp add: ex_store_unset_domain_def)

lemma ex_unset_sorted:
  "sorted_reverse score_task (ex_store_unset_domain ''task'') = Inr [ex_task_E, ex_task_A, ex_task_B]"
  by (simp add: sorted_reverse_def ex_unset_task ex_scores ex_task_E_ok)

lemma ex_bullets:
  "bullet_line ex_task_E 26 = ''- E (score 26) '' @ em_dash @ '' domain: None''"
  "bullet_line ex_task_A 10 = ''- A (score 10) '' @ em_dash @ '' domain: general''"
  "bullet_line ex_task_B 10 = ''- B (score 10) '' @ em_dash @ '' domain: general''"
  by (simp_all add: bullet_line_def ex_defs ex_task_E_def get_def get_default_def show_int_def
        show_nat.simps digit_char_def digit_chars)

section \<open>The scoring function\<close>

text \<open>
  C1. For every task whose fields impact, effort and urgency are integers in 1..10 when
  present, \<open>score_task\<close> returns a value (it does not raise), and the value is
  impact * 2 + urgency - effort, where an absent field counts as 5 (impact), 3 (effort)
  or 5 (urgency). The result is a function of the task alone.
\<close>

theorem score_task_formula:
  "task_ok t \<Longrightarrow>
   score_task t =
     Inr (field_or t ''impact'' 5 * 2 + field_or t ''urgency'' 5 - field_or t ''effort'' 3)"
  by (auto simp: task_ok_def field_ok_def score_task_def get_default_def field_or_def
           split: option.splits pyval.splits)

theorem score_task_formula_witness:
  "task_ok [(''impact'', PInt 8), (''urgency'', PInt 9), (''effort'', PInt 2)]
   \<and> score_task [(''impact'', PInt 8), (''urgency'', PInt 9), (''effort'', PInt 2)] = Inr 23
   \<and> task_ok [(''title'', PStr ''t'')]
   \<and> score_task [(''title'', PStr ''t'')] = Inr 12"
  using score_task_formula [of "[(''impact'', PInt 8), (''urgency'', PInt 9), (''effort'', PInt 2)]"]
        score_task_formula [of "[(''title'', PStr ''t'')]"]
  by (simp add: task_ok_def field_ok_def field_or_def)

section \<open>Selecting the next task\<close>

text \<open>
  C2. The preference score of a candidate is its score, plus 5 exactly when a caller
  identity is given (a non-empty string) and the task's assignee equals it, plus 2 exactly
  when the task's assignee is empty (absent, \<^verbatim>\<open>None\<close>, the empty string or, for a value
  no Task holds, the integer 0); the two bonuses never apply to the same task; a score that
  raises makes the preference score raise. In the spec's example, A and B have score 10,
  the caller \<^verbatim>\<open>u@x\<close> gives A the preference 12 and B the preference 15, and B is
  selected although A comes first in the store: \<open>next_task\<close> returns the task with the
  identity and title of B, in progress and assigned to the caller, and B is the task the
  store shows claimed afterwards.
\<close>

theorem pref_score_bonuses:
  "pref_score caller t =
     (case score_task t of
        Inl e \<Rightarrow> Inl e
      | Inr s \<Rightarrow>
          Inr (s + (if \<exists>u. caller = Some u \<and> u \<noteq> [] \<and> map_of t ''assignee'' = Some (PStr u) then 5 else 0)
                 + (if map_of t ''assignee'' \<in> {None, Some PNone, Some (PStr []), Some (PInt 0)} then 2 else 0)))
   \<and> \<not> ((\<exists>u. caller = Some u \<and> u \<noteq> [] \<and> map_of t ''assignee'' = Some (PStr u))
          \<and> map_of t ''assignee'' \<in> {None, Some PNone, Some (PStr []), Some (PInt 0)})
   \<and> score_task ex_task_A = Inr 10 \<and> map_of ex_task_A ''assignee'' = Some PNone
   \<and> score_task ex_task_B = Inr 10 \<and> map_of ex_task_B ''assignee'' = Some (PStr ''u@x'')
   \<and> pref_score (Some ''u@x'') ex_task_A = Inr 12
   \<and> pref_score (Some ''u@x'') ex_task_B = Inr 15
   \<and> candidate_pool ex_store = [ex_task_A, ex_task_B]
   \<and> next_task (Some ''u@x'') ex_store = claim_and_respond (Some ''u@x'') ex_task_B ex_store
   \<and> next_task (Some ''u@x'') ex_store = (Inr (Selected ex_response_B), ex_store_B_claimed)
   \<and> map_of ex_task_B ''_id'' = Some (POid ''00000000000000000000000b'')
   \<and> map_of ex_task_B ''title'' = Some (PStr ''B'')
   \<and> map_of ex_response_B ''id'' = Some (PStr ''00000000000000000000000b'')
   \<and> map_of ex_response_B ''title'' = Some (PStr ''B'')
   \<and> map_of ex_response_B ''assignee'' = Some (PStr ''u@x'')
   \<and> map_of ex_response_B ''status'' = Some (PStr ''in_progress'')"
proof -
  have a: "(given caller \<and> get t ''assignee'' = opt_str caller) \<longleftrightarrow>
        (\<exists>u. caller = Some u \<and> u \<noteq> [] \<and> map_of t ''assignee'' = Some (PStr u))"
    by (cases caller) (auto simp: given_def get_def get_default_def opt_str_def split: option.splits)
  have b: "(\<not> truthy (get t ''assignee'')) \<longleftrightarrow>
        map_of t ''assignee'' \<in> {None, Some PNone, Some (PStr []), Some (PInt 0)}"
  proof (cases "map_of t ''assignee''")
    case None then show ?thesis by (simp add: get_def get_default_def)
  next
    case (Some v) then show ?thesis by (cases v) (simp_all add: get_def get_default_def)
  qed
  have c: "pref_score caller t =
     (case score_task t of
        Inl e \<Rightarrow> Inl e
      | Inr s \<Rightarrow>
          Inr (s + (if given caller \<and> get t ''assignee'' = opt_str caller then 5 else 0)
                 + (if \<not> truthy (get t ''assignee'') then 2 else 0)))"
    by (simp add: pref_score_def Let_def split: sum.splits)
  have d: "\<not> ((\<exists>u. caller = Some u \<and> u \<noteq> [] \<and> map_of t ''assignee'' = Some (PStr u))
          \<and> map_of t ''assignee'' \<in> {None, Some PNone, Some (PStr []), Some (PInt 0)})" by auto
  have e: "next_task (Some ''u@x'') ex_store = claim_and_respond (Some ''u@x'') ex_task_B ex_store"
    using next_task_unfold [of "Some ''u@x''" ex_store ex_task_B "[ex_task_A]"] ex_sorted ex_pool by simp
  have f: "map_of ex_task_A ''assignee'' = Some PNone" "map_of ex_task_B ''assignee'' = Some (PStr ''u@x'')"
    by (simp_all add: ex_defs)
  have g: "map_of ex_task_B ''_id'' = Some (POid ''00000000000000000000000b'')"
    "map_of ex_task_B ''title'' = Some (PStr ''B'')"
    "map_of ex_response_B ''id'' = Some (PStr ''00000000000000000000000b'')"
    "map_of ex_response_B ''title'' = Some (PStr ''B'')"
    "map_of ex_response_B ''assignee'' = Some (PStr ''u@x'')"
    "map_of ex_response_B ''status'' = Some (PStr ''in_progress'')"
    by (simp_all add: ex_defs ex_response_B_def)
  have h: "pref_score caller t =
     (case score_task t of
        Inl e \<Rightarrow> Inl e
      | Inr s \<Rightarrow>
          Inr (s + (if \<exists>u. caller = Some u \<and> u \<noteq> [] \<and> map_of t ''assignee'' = Some (PStr u) then 5 else 0)
                 + (if map_of t ''assignee'' \<in> {None, Some PNone, Some (PStr []), Some (PInt 0)} then 2 else 0)))"
    unfolding c a b by (rule refl)
  show ?thesis
    by (intro conjI h d e f g ex_scores ex_prefs ex_pool ex_next_B)
qed

theorem pref_score_bonuses_witness:
  "pref_score (Some ''u@x'') ex_task_B = Inr (10 + 5 + 0)
   \<and> pref_score (Some ''v@x'') ex_task_B = Inr (10 + 0 + 0)
   \<and> pref_score None ex_task_A = Inr (10 + 0 + 2)"
  using pref_score_bonuses [of "Some ''u@x''" ex_task_B] pref_score_bonuses [of "Some ''v@x''" ex_task_B]
    pref_score_bonuses [of None ex_task_A]
  by (simp add: ex_scores)

text \<open>
  C3. The candidate pool is the list of backlog tasks whenever that list is non-empty, and
  the list of blocked tasks otherwise. A task that \<open>next_task\<close> returns comes from a
  member of the pool; while a backlog task exists that member has status backlog and the
  returned task is not blocked. When both lists are empty the call returns no task, the
  message "No tasks available. Create one to get started." and the store unchanged.
\<close>

theorem next_task_pool_choice:
  "(get_documents st ''task'' [(''status'', PStr ''backlog'')] \<noteq> [] \<longrightarrow>
      candidate_pool st = get_documents st ''task'' [(''status'', PStr ''backlog'')])
   \<and> (get_documents st ''task'' [(''status'', PStr ''backlog'')] = [] \<longrightarrow>
      candidate_pool st = get_documents st ''task'' [(''status'', PStr ''blocked'')])
   \<and> (\<forall>d st'. next_task caller st = (Inr (Selected d), st') \<longrightarrow>
        (\<exists>best \<in> set (candidate_pool st).
            claim_and_respond caller best st = (Inr (Selected d), st')
          \<and> (get_documents st ''task'' [(''status'', PStr ''backlog'')] \<noteq> [] \<longrightarrow>
               get best ''status'' = PStr ''backlog'' \<and> get d ''status'' \<noteq> PStr ''blocked'')))
   \<and> (get_documents st ''task'' [(''status'', PStr ''backlog'')] = []
        \<and> get_documents st ''task'' [(''status'', PStr ''blocked'')] = [] \<longrightarrow>
      next_task caller st = (Inr (NoTask ''No tasks available. Create one to get started.''), st))"
proof (intro conjI allI impI)
  fix d st'
  assume nt: "next_task caller st = (Inr (Selected d), st')"
  from next_task_Selected_D [OF nt] obtain best rest where
    sr: "sorted_reverse (pref_score caller) (candidate_pool st) = Inr (best # rest)"
    and cr: "claim_and_respond caller best st = (Inr (Selected d), st')" by blast
  have mem: "best \<in> set (candidate_pool st)" using sorted_reverse_set [OF sr] by auto
  have "get best ''status'' = PStr ''backlog'' \<and> get d ''status'' \<noteq> PStr ''blocked''"
    if b: "get_documents st ''task'' [(''status'', PStr ''backlog'')] \<noteq> []"
  proof -
    have "best \<in> set (get_documents st ''task'' [(''status'', PStr ''backlog'')])"
      using mem b by (simp add: candidate_pool_cases)
    then have st: "get best ''status'' = PStr ''backlog''"
      using get_documents_field by (fastforce simp: get_def get_default_def)
    from claim_and_respond_Selected_D [OF cr] obtain s where
      d: "d = AList.update ''score'' (PInt s)
          (if given caller \<and> get best ''status'' = PStr ''backlog''
           then AList.update ''assignee'' (opt_str caller)
                  (AList.update ''status'' (PStr ''in_progress'') (serialize_doc best))
           else serialize_doc best)" by blast
    have "get d ''status'' \<noteq> PStr ''blocked''"
      unfolding d by (simp add: get_update get_serialize_doc st oid_to_str_def)
    with st show ?thesis by simp
  qed
  with mem cr show "\<exists>best \<in> set (candidate_pool st).
            claim_and_respond caller best st = (Inr (Selected d), st')
          \<and> (get_documents st ''task'' [(''status'', PStr ''backlog'')] \<noteq> [] \<longrightarrow>
               get best ''status'' = PStr ''backlog'' \<and> get d ''status'' \<noteq> PStr ''blocked'')"
    by blast
qed (simp_all add: candidate_pool_cases next_task_def)

theorem next_task_pool_choice_witness:
  "get_documents ex_store_mixed ''task'' [(''status'', PStr ''backlog'')] = [ex_task_D, ex_task_A]
   \<and> candidate_pool ex_store_mixed = [ex_task_D, ex_task_A]
   \<and> next_task None ex_store_mixed = (Inr (Selected ex_response_A), ex_store_mixed)
   \<and> (\<exists>best \<in> set (candidate_pool ex_store_mixed).
          claim_and_respond None best ex_store_mixed = (Inr (Selected ex_response_A), ex_store_mixed)
        \<and> get best ''status'' = PStr ''backlog''
        \<and> get ex_response_A ''status'' \<noteq> PStr ''blocked'')
   \<and> next_task None ex_store_empty
        = (Inr (NoTask ''No tasks available. Create one to get started.''), ex_store_empty)"
proof -
  have ne: "get_documents ex_store_mixed ''task'' [(''status'', PStr ''backlog'')] \<noteq> []"
    by (simp add: ex_mixed_backlog)
  from next_task_pool_choice [of ex_store_mixed None] ne ex_mixed_next
  have a: "\<exists>best \<in> set (candidate_pool ex_store_mixed).
          claim_and_respond None best ex_store_mixed = (Inr (Selected ex_response_A), ex_store_mixed)
        \<and> get best ''status'' = PStr ''backlog''
        \<and> get ex_response_A ''status'' \<noteq> PStr ''blocked''"
    by (simp add: ex_mixed_pool ex_mixed_backlog)
  from next_task_pool_choice [of ex_store_empty None]
  have b: "next_task None ex_store_empty
        = (Inr (NoTask ''No tasks available. Create one to get started.''), ex_store_empty)"
    by (simp add: ex_empty_docs)
  show ?thesis using a b ex_mixed_backlog ex_mixed_pool ex_mixed_next by simp
qed

text \<open>
  C4. Without a caller identity (none, or the empty string) or without a backlog task,
  \<open>next_task\<close> leaves the store as it was, whatever the store holds. With a caller
  identity \<open>u\<close> and a backlog task, on a store whose tasks honor the field invariant and
  carry distinct identities, the call changes the store, and exactly so: one backlog task,
  found by its identity, gets status \<^verbatim>\<open>in_progress\<close> and assignee \<open>u\<close>, every other
  document stays; the returned task has this status and assignee and the identity of the
  updated task.
\<close>

theorem next_task_store_effect:
  "((caller = None \<or> caller = Some [] \<or> get_documents st ''task'' [(''status'', PStr ''backlog'')] = [])
      \<longrightarrow> snd (next_task caller st) = st)
   \<and> (\<forall>u. caller = Some u \<and> u \<noteq> []
          \<and> get_documents st ''task'' [(''status'', PStr ''backlog'')] \<noteq> []
          \<and> list_all task_ok (st ''task'') \<and> list_all has_oid (st ''task'')
          \<and> distinct (map (\<lambda>t. map_of t ''_id'') (st ''task'')) \<longrightarrow>
        (\<exists>i < length (st ''task''). \<exists>d.
            st ''task'' ! i \<in> set (get_documents st ''task'' [(''status'', PStr ''backlog'')])
          \<and> next_task caller st =
              (Inr (Selected d),
               st(''task'' := (st ''task'')[i := AList.update ''assignee'' (PStr u)
                       (AList.update ''status'' (PStr ''in_progress'') (st ''task'' ! i))]))
          \<and> snd (next_task caller st) \<noteq> st
          \<and> get d ''status'' = PStr ''in_progress''
          \<and> get d ''assignee'' = PStr u
          \<and> map_of d ''id'' = Some (PStr (py_str (get (st ''task'' ! i) ''_id'')))))"
proof (intro conjI allI impI)
  assume "caller = None \<or> caller = Some [] \<or> get_documents st ''task'' [(''status'', PStr ''backlog'')] = []"
  then have "\<not> given caller \<or> get_documents st ''task'' [(''status'', PStr ''backlog'')] = []"
    by (auto simp: given_def)
  then show "snd (next_task caller st) = st" by (rule next_task_no_write)
next
  fix u
  assume "caller = Some u \<and> u \<noteq> []
          \<and> get_documents st ''task'' [(''status'', PStr ''backlog'')] \<noteq> []
          \<and> list_all task_ok (st ''task'') \<and> list_all has_oid (st ''task'')
          \<and> distinct (map (\<lambda>t. map_of t ''_id'') (st ''task''))"
  then show "\<exists>i < length (st ''task''). \<exists>d.
            st ''task'' ! i \<in> set (get_documents st ''task'' [(''status'', PStr ''backlog'')])
          \<and> next_task caller st =
              (Inr (Selected d),
               st(''task'' := (st ''task'')[i := AList.update ''assignee'' (PStr u)
                       (AList.update ''status'' (PStr ''in_progress'') (st ''task'' ! i))]))
          \<and> snd (next_task caller st) \<noteq> st
          \<and> get d ''status'' = PStr ''in_progress''
          \<and> get d ''assignee'' = PStr u
          \<and> map_of d ''id'' = Some (PStr (py_str (get (st ''task'' ! i) ''_id'')))"
    using next_task_claims [of caller u st] by blast
qed

theorem next_task_store_effect_witness:
  "snd (next_task None ex_store) = ex_store
   \<and> (\<exists>i < length (ex_store ''task''). \<exists>d.
            ex_store ''task'' ! i \<in> set (get_documents ex_store ''task'' [(''status'', PStr ''backlog'')])
          \<and> next_task (Some ''u@x'') ex_store =
              (Inr (Selected d),
               ex_store(''task'' := (ex_store ''task'')[i := AList.update ''assignee'' (PStr ''u@x'')
                       (AList.update ''status'' (PStr ''in_progress'') (ex_store ''task'' ! i))]))
          \<and> snd (next_task (Some ''u@x'') ex_store) \<noteq> ex_store
          \<and> get d ''status'' = PStr ''in_progress''
          \<and> get d ''assignee'' = PStr ''u@x''
          \<and> map_of d ''id'' = Some (PStr (py_str (get (ex_store ''task'' ! i) ''_id''))))"
proof -
  have h: "get_documents ex_store ''task'' [(''status'', PStr ''backlog'')] \<noteq> []"
    "list_all task_ok (ex_store ''task'')" "list_all has_oid (ex_store ''task'')"
    "distinct (map (\<lambda>t. map_of t ''_id'') (ex_store ''task''))"
    using ex_distinct by (simp_all add: ex_backlog ex_store_task ex_task_ok ex_has_oid)
  from next_task_store_effect [of None ex_store] have a: "snd (next_task None ex_store) = ex_store" by simp
  from next_task_store_effect [of "Some ''u@x''" ex_store] h
  show ?thesis using a by simp
qed

text \<open>
  C5. On a non-empty pool whose tasks honor the field invariant and carry an identity,
  \<open>next_task\<close> returns a task, and it is the one made from the candidate at the first
  position of the pool (in store order) whose preference score is maximal: no candidate
  has a greater preference score, and every candidate before it has a smaller one. The
  returned task is that candidate serialised (its identity under \<^verbatim>\<open>id\<close>, its other
  fields as stored), with the status and assignee of the claim when the call claims it,
  and with the candidate's score attached.
\<close>

theorem next_task_first_maximum:
  assumes "candidate_pool st \<noteq> []"
    and "list_all task_ok (candidate_pool st)"
    and "list_all has_oid (candidate_pool st)"
  shows "\<exists>i < length (candidate_pool st). \<exists>p s d st'.
           pref_score caller (candidate_pool st ! i) = Inr p
         \<and> (\<forall>j < length (candidate_pool st). \<exists>q. pref_score caller (candidate_pool st ! j) = Inr q \<and> q \<le> p)
         \<and> (\<forall>j < i. \<exists>q. pref_score caller (candidate_pool st ! j) = Inr q \<and> q < p)
         \<and> next_task caller st = claim_and_respond caller (candidate_pool st ! i) st
         \<and> next_task caller st = (Inr (Selected d), st')
         \<and> score_task (candidate_pool st ! i) = Inr s
         \<and> d = AList.update ''score'' (PInt s)
                (if given caller \<and> get (candidate_pool st ! i) ''status'' = PStr ''backlog''
                 then AList.update ''assignee'' (opt_str caller)
                        (AList.update ''status'' (PStr ''in_progress'')
                           (serialize_doc (candidate_pool st ! i)))
                 else serialize_doc (candidate_pool st ! i))
         \<and> map_of d ''id'' = Some (PStr (py_str (get (candidate_pool st ! i) ''_id'')))
         \<and> (\<forall>k. k \<notin> {''_id'', ''id'', ''score'', ''status'', ''assignee''} \<longrightarrow>
                map_of d k = map_option oid_to_str (map_of (candidate_pool st ! i) k))"
proof -
  let ?pool = "candidate_pool st"
  have "\<forall>t \<in> set ?pool. \<exists>p. pref_score caller t = Inr p"
    using assms(2) task_ok_pref_Inr by (auto simp: list_all_iff)
  then obtain ys where ys: "sorted_reverse (pref_score caller) ?pool = Inr ys"
    using sorted_reverse_total by blast
  then have "length ys = length ?pool" by (rule sorted_reverse_length)
  with assms(1) obtain best rest where br: "ys = best # rest" by (cases ys) auto
  from sorted_reverse_first [OF ys [unfolded br]] obtain i p where i: "i < length ?pool"
    "best = ?pool ! i" "pref_score caller (?pool ! i) = Inr p"
    "\<forall>j < length ?pool. \<exists>q. pref_score caller (?pool ! j) = Inr q \<and> q \<le> p"
    "\<forall>j < i. \<exists>q. pref_score caller (?pool ! j) = Inr q \<and> q < p" by blast
  let ?b = "?pool ! i"
  have nt: "next_task caller st = claim_and_respond caller ?b st"
    using next_task_unfold [OF ys [unfolded br]] i(2) by simp
  have ok: "task_ok ?b" "has_oid ?b"
    using assms(2,3) i(1) by (simp_all add: list_all_length)
  from claim_and_respond_total [OF ok] obtain d st' where
    cr: "claim_and_respond caller ?b st = (Inr (Selected d), st')" by blast
  from claim_and_respond_Selected_D [OF cr] obtain s where s: "score_task ?b = Inr s"
    and d: "d = AList.update ''score'' (PInt s)
                (if given caller \<and> get ?b ''status'' = PStr ''backlog''
                 then AList.update ''assignee'' (opt_str caller)
                        (AList.update ''status'' (PStr ''in_progress'') (serialize_doc ?b))
                 else serialize_doc ?b)" by blast
  from has_oid_D [OF ok(2)] obtain h where h: "map_of ?b ''_id'' = Some (POid h)" by blast
  have idd: "map_of d ''id'' = Some (PStr (py_str (get ?b ''_id'')))"
    unfolding d using map_of_serialize_doc_id [OF h] h
    by (simp add: update_conv' get_def get_default_def)
  have rest: "\<forall>k. k \<notin> {''_id'', ''id'', ''score'', ''status'', ''assignee''} \<longrightarrow>
                map_of d k = map_option oid_to_str (map_of ?b k)"
    unfolding d by (simp add: update_conv' map_of_serialize_doc)
  show ?thesis
    using i(1,3,4,5) nt cr s d idd rest
    by (intro exI [of _ i] conjI exI [of _ p] exI [of _ s] exI [of _ d] exI [of _ st']) simp_all
qed

theorem next_task_first_maximum_witness:
  "candidate_pool ex_store \<noteq> []
   \<and> list_all task_ok (candidate_pool ex_store)
   \<and> list_all has_oid (candidate_pool ex_store)
   \<and> (\<exists>i < length (candidate_pool ex_store). \<exists>p s d st'.
           pref_score (Some ''u@x'') (candidate_pool ex_store ! i) = Inr p
         \<and> (\<forall>j < length (candidate_pool ex_store).
               \<exists>q. pref_score (Some ''u@x'') (candidate_pool ex_store ! j) = Inr q \<and> q \<le> p)
         \<and> (\<forall>j < i. \<exists>q. pref_score (Some ''u@x'') (candidate_pool ex_store ! j) = Inr q \<and> q < p)
         \<and> next_task (Some ''u@x'') ex_store
             = claim_and_respond (Some ''u@x'') (candidate_pool ex_store ! i) ex_store
         \<and> next_task (Some ''u@x'') ex_store = (Inr (Selected d), st')
         \<and> score_task (candidate_pool ex_store ! i) = Inr s
         \<and> d = AList.update ''score'' (PInt s)
                (if given (Some ''u@x'') \<and> get (candidate_pool ex_store ! i) ''status'' = PStr ''backlog''
                 then AList.update ''assignee'' (opt_str (Some ''u@x''))
                        (AList.update ''status'' (PStr ''in_progress'')
                           (serialize_doc (candidate_pool ex_store ! i)))
                 else serialize_doc (candidate_pool ex_store ! i))
         \<and> map_of d ''id'' = Some (PStr (py_str (get (candidate_pool ex_store ! i) ''_id'')))
         \<and> (\<forall>k. k \<notin> {''_id'', ''id'', ''score'', ''status'', ''assignee''} \<longrightarrow>
                map_of d k = map_option oid_to_str (map_of (candidate_pool ex_store ! i) k)))
   \<and> candidate_pool ex_store = [ex_task_A, ex_task_B]
   \<and> pref_score (Some ''u@x'') ex_task_A = Inr 12
   \<and> pref_score (Some ''u@x'') ex_task_B = Inr 15
   \<and> next_task (Some ''u@x'') ex_store = (Inr (Selected ex_response_B), ex_store_B_claimed)"
proof (intro conjI)
  show "\<exists>i < length (candidate_pool ex_store). \<exists>p s d st'.
           pref_score (Some ''u@x'') (candidate_pool ex_store ! i) = Inr p
         \<and> (\<forall>j < length (candidate_pool ex_store).
               \<exists>q. pref_score (Some ''u@x'') (candidate_pool ex_store ! j) = Inr q \<and> q \<le> p)
         \<and> (\<forall>j < i. \<exists>q. pref_score (Some ''u@x'') (candidate_pool ex_store ! j) = Inr q \<and> q < p)
         \<and> next_task (Some ''u@x'') ex_store
             = claim_and_respond (Some ''u@x'') (candidate_pool ex_store ! i) ex_store
         \<and> next_task (Some ''u@x'') ex_store = (Inr (Selected d), st')
         \<and> score_task (candidate_pool ex_store ! i) = Inr s
         \<and> d = AList.update ''score'' (PInt s)
                (if given (Some ''u@x'') \<and> get (candidate_pool ex_store ! i) ''status'' = PStr ''backlog''
                 then AList.update ''assignee'' (opt_str (Some ''u@x''))
                        (AList.update ''status'' (PStr ''in_progress'')
                           (serialize_doc (candidate_pool ex_store ! i)))
                 else serialize_doc (candidate_pool ex_store ! i))
         \<and> map_of d ''id'' = Some (PStr (py_str (get (candidate_pool ex_store ! i) ''_id'')))
         \<and> (\<forall>k. k \<notin> {''_id'', ''id'', ''score'', ''status'', ''assignee''} \<longrightarrow>
                map_of d k = map_option oid_to_str (map_of (candidate_pool ex_store ! i) k))"
    by (rule next_task_first_maximum [OF ex_pool_ok])
qed (simp_all add: ex_pool ex_prefs ex_next_B ex_task_ok ex_has_oid)

text \<open>
  C10. Whenever \<open>next_task\<close> returns a task, the \<^verbatim>\<open>score\<close> field of that task is the
  score of the selected candidate (the head of the pool sorted by preference score), not
  its preference score. In the witness the bonus decides the selection: D has score 11 and
  preference 11, A has score 10 and preference 12; A is returned, with score 10.
\<close>

theorem next_task_score_is_base_score:
  assumes "next_task caller st = (Inr (Selected d), st')"
  shows "\<exists>best rest s p. sorted_reverse (pref_score caller) (candidate_pool st) = Inr (best # rest)
           \<and> score_task best = Inr s \<and> pref_score caller best = Inr p \<and> map_of d ''score'' = Some (PInt s)"
proof -
  from next_task_Selected_D [OF assms] obtain best rest where
    sr: "sorted_reverse (pref_score caller) (candidate_pool st) = Inr (best # rest)"
    and cr: "claim_and_respond caller best st = (Inr (Selected d), st')" by blast
  from claim_and_respond_Selected_D [OF cr] obtain s where s: "score_task best = Inr s"
    and d: "map_of d ''score'' = Some (PInt s)" by (auto simp: update_conv')
  from s obtain p where "pref_score caller best = Inr p" by (simp add: pref_score_def Let_def)
  with sr s d show ?thesis by blast
qed

theorem next_task_score_is_base_score_witness:
  "next_task None ex_store_mixed = (Inr (Selected ex_response_A), ex_store_mixed)
   \<and> (\<exists>best rest s p. sorted_reverse (pref_score None) (candidate_pool ex_store_mixed) = Inr (best # rest)
           \<and> score_task best = Inr s \<and> pref_score None best = Inr p
           \<and> map_of ex_response_A ''score'' = Some (PInt s))
   \<and> map_of ex_response_A ''score'' = Some (PInt 10)
   \<and> pref_score None ex_task_A = Inr 12 \<and> score_task ex_task_D = Inr 11"
  using next_task_score_is_base_score [OF ex_mixed_next] ex_mixed_next ex_prefs_None ex_scores_CD
  by (simp add: ex_response_A_def)

section \<open>Updating a status\<close>



text \<open>
  C7. The status invariant is not preserved by \<open>update_task_status\<close>: the payload's
  status is any string (\<^verbatim>\<open>status: str\<close> in \<^verbatim>\<open>TaskStatusUpdate\<close>), and the
  function stores it as it is, whereas \<^verbatim>\<open>Task.status\<close> in \<^verbatim>\<open>src/schemas.py\<close>
  admits four values only. On the example store, whose two tasks are in the backlog,
  setting the status of B to \<^verbatim>\<open>archived\<close> succeeds and leaves B with that status.
\<close>

theorem update_task_status_breaks_status_invariant:
  "status_invariant ex_store
   \<and> fst (update_task_status ''00000000000000000000000b'' \<lparr>status = ''archived''\<rparr> ex_store) = Inr True
   \<and> get (snd (update_task_status ''00000000000000000000000b'' \<lparr>status = ''archived''\<rparr> ex_store)
            ''task'' ! 1) ''status'' = PStr ''archived''
   \<and> \<not> status_invariant (snd (update_task_status ''00000000000000000000000b'' \<lparr>status = ''archived''\<rparr> ex_store))"
  unfolding ex_update_B
  by (simp add: status_invariant_def valid_status_def get_def get_default_def ex_store_def update_conv')
     (simp add: ex_defs)

section \<open>Submitting a message\<close>

text \<open>
  C8, as stated, fails: the reply is composed for a message of any sender, not only for
  sender \<^verbatim>\<open>user\<close>. A message submitted with sender \<^verbatim>\<open>ai\<close> to the empty store is
  stored, and a second message of sender \<^verbatim>\<open>ai\<close> with the fallback text is stored after
  it.
\<close>

theorem create_message_replies_to_ai_sender:
  "sender \<lparr>sender = ''ai'', text = ''hi'', user_email = None, topic = None\<rparr> \<noteq> ''user''
   \<and> create_message ''0000000000000000000000a1'' ''0000000000000000000000a2''
        \<lparr>sender = ''ai'', text = ''hi'', user_email = None, topic = None\<rparr> ex_store_empty
      = (Inr True, ex_store_empty(''message'' :=
          [[(''sender'', PStr ''ai''), (''text'', PStr ''hi''), (''user_email'', PNone),
            (''topic'', PNone), (''_id'', POid ''0000000000000000000000a1'')],
           [(''sender'', PStr ''ai''), (''text'', PStr reply_fallback), (''user_email'', PNone),
            (''topic'', PStr ''general''), (''_id'', POid ''0000000000000000000000a2'')]]))"
proof -
  have s: "sorted_reverse score_task (ex_store_empty ''task'') = Inr []"
    by (simp add: sorted_reverse_def ex_store_empty_def)
  have c: "compose_reply (map serialize_doc (take 3 [])) = Inr reply_fallback"
    by (simp add: compose_reply_def)
  show ?thesis
    using create_message_result [where st = ex_store_empty, OF s c]
    by (simp add: stored_messages_def opt_str_def ex_store_empty_def)
qed

text \<open>
  C8, amended. On a store whose tasks honor the field invariant, \<open>create_message\<close>
  succeeds for every payload, whatever its sender, and appends exactly two messages to
  the message collection: the submitted message, then one message with sender \<^verbatim>\<open>ai\<close>,
  the same \<^verbatim>\<open>user_email\<close>, and the same topic, or \<^verbatim>\<open>general\<close> when the topic is
  absent or empty. Nothing else in the store changes.
\<close>

theorem create_message_always_replies:
  assumes "list_all task_ok (st ''task'')"
  shows "\<exists>reply. create_message id1 id2 payload st =
           (Inr True, st(''message'' := st ''message'' @ stored_messages id1 id2 payload reply))
         \<and> length (stored_messages id1 id2 payload reply) = 2
         \<and> get (stored_messages id1 id2 payload reply ! 0) ''sender'' = PStr (sender payload)
         \<and> get (stored_messages id1 id2 payload reply ! 0) ''text'' = PStr (text payload)
         \<and> get (stored_messages id1 id2 payload reply ! 1) ''sender'' = PStr ''ai''
         \<and> get (stored_messages id1 id2 payload reply ! 1) ''text'' = PStr reply
         \<and> get (stored_messages id1 id2 payload reply ! 1) ''user_email''
             = get (stored_messages id1 id2 payload reply ! 0) ''user_email''
         \<and> get (stored_messages id1 id2 payload reply ! 1) ''topic''
             = (if topic payload = None \<or> topic payload = Some [] then PStr ''general''
                else get (stored_messages id1 id2 payload reply ! 0) ''topic'')"
proof -
  have "\<forall>t \<in> set (st ''task''). \<exists>s. score_task t = Inr s"
    using assms task_ok_score_Inr by (auto simp: list_all_iff)
  then obtain ys where ys: "sorted_reverse score_task (st ''task'') = Inr ys"
    using sorted_reverse_total by blast
  have "set (take 3 ys) \<subseteq> set (st ''task'')"
    using sorted_reverse_set [OF ys] set_take_subset [of 3 ys] by simp
  then have "\<forall>t \<in> set (take 3 ys). task_ok t" using assms by (auto simp: list_all_iff)
  from compose_reply_total [OF this] obtain reply where
    "compose_reply (map serialize_doc (take 3 ys)) = Inr reply" by blast
  from create_message_result [where st = st, OF ys this]
  have "create_message id1 id2 payload st =
      (Inr True, st(''message'' := st ''message'' @ stored_messages id1 id2 payload reply))" .
  moreover have "get (stored_messages id1 id2 payload reply ! 1) ''topic''
      = (if topic payload = None \<or> topic payload = Some [] then PStr ''general''
         else get (stored_messages id1 id2 payload reply ! 0) ''topic'')"
    by (cases "topic payload") (simp_all add: stored_messages_def get_def get_default_def opt_str_def)
  ultimately show ?thesis
    by (intro exI [of _ reply]) (simp add: stored_messages_def get_def get_default_def)
qed

theorem create_message_always_replies_witness:
  "list_all task_ok (ex_store ''task'')
   \<and> (\<exists>reply. create_message ''0000000000000000000000a1'' ''0000000000000000000000a2''
         \<lparr>sender = ''user'', text = ''hello'', user_email = Some ''u@x'', topic = Some ''growth''\<rparr> ex_store =
           (Inr True, ex_store(''message'' := ex_store ''message'' @
              [[(''sender'', PStr ''user''), (''text'', PStr ''hello''), (''user_email'', PStr ''u@x''),
                (''topic'', PStr ''growth''), (''_id'', POid ''0000000000000000000000a1'')],
               [(''sender'', PStr ''ai''), (''text'', PStr reply), (''user_email'', PStr ''u@x''),
                (''topic'', PStr ''growth''), (''_id'', POid ''0000000000000000000000a2'')]])))"
proof -
  have h: "list_all task_ok (ex_store ''task'')" by (simp add: ex_store_task ex_task_ok)
  from create_message_always_replies [where st = ex_store and ?id1.0 = "''0000000000000000000000a1''"
      and ?id2.0 = "''0000000000000000000000a2''"
      and payload = "\<lparr>sender = ''user'', text = ''hello'', user_email = Some ''u@x'', topic = Some ''growth''\<rparr>",
      OF h]
  obtain reply where r: "create_message ''0000000000000000000000a1'' ''0000000000000000000000a2''
         \<lparr>sender = ''user'', text = ''hello'', user_email = Some ''u@x'', topic = Some ''growth''\<rparr> ex_store =
           (Inr True, ex_store(''message'' := ex_store ''message'' @
              stored_messages ''0000000000000000000000a1'' ''0000000000000000000000a2''
                \<lparr>sender = ''user'', text = ''hello'', user_email = Some ''u@x'', topic = Some ''growth''\<rparr> reply))"
    by blast
  have "\<exists>reply. create_message ''0000000000000000000000a1'' ''0000000000000000000000a2''
         \<lparr>sender = ''user'', text = ''hello'', user_email = Some ''u@x'', topic = Some ''growth''\<rparr> ex_store =
           (Inr True, ex_store(''message'' := ex_store ''message'' @
              [[(''sender'', PStr ''user''), (''text'', PStr ''hello''), (''user_email'', PStr ''u@x''),
                (''topic'', PStr ''growth''), (''_id'', POid ''0000000000000000000000a1'')],
               [(''sender'', PStr ''ai''), (''text'', PStr reply), (''user_email'', PStr ''u@x''),
                (''topic'', PStr ''growth''), (''_id'', POid ''0000000000000000000000a2'')]]))"
    by (rule exI [of _ reply]) (simp add: r stored_messages_def opt_str_def)
  with h show ?thesis by simp
qed

text \<open>
  C9. The claim holds but for the domain of a task stored with domain \<^verbatim>\<open>None\<close>, which
  is how \<^verbatim>\<open>create_task\<close> stores a task submitted with a null domain: the bullet of
  such a task reads \<^verbatim>\<open>domain: None\<close>, not \<^verbatim>\<open>domain: general\<close>, because
  \<^verbatim>\<open>t.get('domain', 'general')\<close> substitutes the default for an absent field only
  (the topic of the same reply is written \<^verbatim>\<open>payload.topic or "general"\<close>, which covers
  \<^verbatim>\<open>None\<close>). On the store of A, B and E, the message
  \<^verbatim>\<open>submitMessage("user", "hello", "u@x", "growth")\<close> is answered by the
  introductory sentence, the bullets of E, A and B in this order (scores 26, 10, 10) and
  the closing sentence, and the bullet of E shows the domain \<^verbatim>\<open>None\<close>.
\<close>

theorem create_message_unset_domain_prints_None:
  "task_ok ex_task_E
   \<and> map_of ex_task_E ''domain'' = Some PNone
   \<and> create_message ''0000000000000000000000a1'' ''0000000000000000000000a2''
         \<lparr>sender = ''user'', text = ''hello'', user_email = Some ''u@x'', topic = Some ''growth''\<rparr>
         ex_store_unset_domain =
       (Inr True, ex_store_unset_domain(''message'' := ex_store_unset_domain ''message'' @
          [[(''sender'', PStr ''user''), (''text'', PStr ''hello''), (''user_email'', PStr ''u@x''),
            (''topic'', PStr ''growth''), (''_id'', POid ''0000000000000000000000a1'')],
           [(''sender'', PStr ''ai''),
            (''text'', PStr (reply_intro
               @ ''- E (score 26) '' @ em_dash @ '' domain: None'' @ [CHR 0x0A]
               @ ''- A (score 10) '' @ em_dash @ '' domain: general'' @ [CHR 0x0A]
               @ ''- B (score 10) '' @ em_dash @ '' domain: general'' @ [CHR 0x0A, CHR 0x0A]
               @ reply_closing)),
            (''user_email'', PStr ''u@x''), (''topic'', PStr ''growth''),
            (''_id'', POid ''0000000000000000000000a2'')]]))"
proof -
  have ok: "list_all task_ok (ex_store_unset_domain ''task'')"
    by (simp add: ex_unset_task ex_task_ok ex_task_E_ok)
  have len: "3 \<le> length (ex_store_unset_domain ''task'')" by (simp add: ex_unset_task)
  from create_message_reply_text [where st = ex_store_unset_domain
      and ?id1.0 = "''0000000000000000000000a1''" and ?id2.0 = "''0000000000000000000000a2''"
      and payload = "\<lparr>sender = ''user'', text = ''hello'', user_email = Some ''u@x'', topic = Some ''growth''\<rparr>",
      OF ok] len ex_unset_sorted ex_scores ex_task_E_ok
  have "create_message ''0000000000000000000000a1'' ''0000000000000000000000a2''
         \<lparr>sender = ''user'', text = ''hello'', user_email = Some ''u@x'', topic = Some ''growth''\<rparr>
         ex_store_unset_domain =
       (Inr True, ex_store_unset_domain(''message'' := ex_store_unset_domain ''message'' @
          stored_messages ''0000000000000000000000a1'' ''0000000000000000000000a2''
            \<lparr>sender = ''user'', text = ''hello'', user_email = Some ''u@x'', topic = Some ''growth''\<rparr>
            (reply_intro @ bullet_line ex_task_E 26 @ [CHR 0x0A] @ bullet_line ex_task_A 10 @ [CHR 0x0A]
             @ bullet_line ex_task_B 10 @ [CHR 0x0A, CHR 0x0A] @ reply_closing)))"
    by auto
  then show ?thesis
    using ex_task_E_ok by (simp add: ex_bullets stored_messages_def opt_str_def)
qed

end
